theory Spec2Isabelle
  imports Main "HOL-Library.Sublist"
begin

section \<open>Text: Python \<open>str\<close> values\<close>

text \<open>
  A Python \<open>str\<close> is a sequence of Unicode code points. It is modelled as a list of
  natural numbers, one per code point; \<open>ustr\<close> turns a literal of the source into
  such a list.
\<close>

type_synonym pystr = "nat list"

definition ustr :: "string \<Rightarrow> pystr" where
  "ustr s = map of_char s"

text \<open>The exceptions that occur in the script; all of them derive from \<open>Exception\<close>.\<close>

datatype exn =
    JSONDecodeError
  | ValueError
  | TypeError
  | KeyError pystr
  | IndexError
  | OverflowError
  | RecursionError
  | ExternalError nat

subsection \<open>\<open>needle in s\<close>\<close>

fun contains :: "'a list \<Rightarrow> 'a list \<Rightarrow> bool" where
  "contains needle [] = (needle = [])"
| "contains needle (x # xs) = (prefix needle (x # xs) \<or> contains needle xs)"

subsection \<open>\<open>s.split(sep)\<close>\<close>

text \<open>
  \<open>find_sep sep s\<close> looks for the leftmost occurrence of \<open>sep\<close> in \<open>s\<close> and returns
  the text before it and the text after it.
\<close>

fun find_sep :: "'a list \<Rightarrow> 'a list \<Rightarrow> ('a list \<times> 'a list) option" where
  "find_sep sep [] = (if sep = [] then Some ([], []) else None)"
| "find_sep sep (x # xs) =
     (if prefix sep (x # xs) then Some ([], drop (length sep) (x # xs))
      else map_option (\<lambda>(pre, rest). (x # pre, rest)) (find_sep sep xs))"

lemma find_sep_length:
  "find_sep sep s = Some (pre, rest) \<Longrightarrow> length rest + length sep + length pre = length s"
proof (induction s arbitrary: pre)
  case Nil
  then show ?case by (simp split: if_splits)
next
  case (Cons x xs)
  show ?case
  proof (cases "prefix sep (x # xs)")
    case True
    then have "length sep \<le> length (x # xs)" by (rule prefix_length_le)
    with True Cons.prems show ?thesis by auto
  next
    case False
    with Cons.prems obtain p where "find_sep sep xs = Some (p, rest)" and "pre = x # p"
      by auto
    with Cons.IH show ?thesis by fastforce
  qed
qed

function split_from :: "'a list \<Rightarrow> 'a list \<Rightarrow> 'a list list" where
  "split_from sep s =
     (if sep = [] then [s]
      else case find_sep sep s of
             None \<Rightarrow> [s]
           | Some (pre, rest) \<Rightarrow> pre # split_from sep rest)"
  by pat_completeness auto
termination
proof (relation "measure (\<lambda>(sep, s). length s)")
  show "wf (measure (\<lambda>(sep :: 'a list, s :: 'a list). length s))" by simp
next
  fix sep s :: "'a list" and x2 pre rest
  assume "sep \<noteq> []" "find_sep sep s = Some x2" "(pre, rest) = x2"
  then have "length rest + length sep + length pre = length s"
    using find_sep_length [of sep s pre rest] by simp
  with \<open>sep \<noteq> []\<close> show "((sep, rest), (sep, s)) \<in> measure (\<lambda>(sep, s). length s)"
    by (cases sep) auto
qed

text \<open>\<open>str.split\<close> raises \<open>ValueError\<close> on an empty separator.\<close>

definition py_split :: "'a list \<Rightarrow> 'a list \<Rightarrow> exn + 'a list list" where
  "py_split sep s = (if sep = [] then Inl ValueError else Inr (split_from sep s))"

text \<open>\<open>xs[0]\<close>\<close>

definition first_item :: "'a list \<Rightarrow> exn + 'a" where
  "first_item xs = (case xs of [] \<Rightarrow> Inl IndexError | x # _ \<Rightarrow> Inr x)"

subsection \<open>\<open>s.strip()\<close>\<close>

text \<open>The code points for which \<open>str.isspace\<close> holds; \<open>str.strip()\<close> removes these.\<close>

definition is_space :: "nat \<Rightarrow> bool" where
  "is_space c \<longleftrightarrow>
     (9 \<le> c \<and> c \<le> 13) \<or> (28 \<le> c \<and> c \<le> 32) \<or> c = 133 \<or> c = 160 \<or> c = 5760 \<or>
     (8192 \<le> c \<and> c \<le> 8202) \<or> c = 8232 \<or> c = 8233 \<or> c = 8239 \<or> c = 8287 \<or> c = 12288"

definition strip :: "pystr \<Rightarrow> pystr" where
  "strip s = rev (dropWhile is_space (rev (dropWhile is_space s)))"

section \<open>The Comment Applier: payload extraction\<close>

text \<open>\<open>json_str = raw_response.split("ACTION:")[0].strip()\<close>\<close>

definition json_str :: "pystr \<Rightarrow> exn + pystr" where
  "json_str raw_response =
     (case py_split (ustr ''ACTION:'') raw_response of
        Inl e \<Rightarrow> Inl e
      | Inr parts \<Rightarrow>
          (case first_item parts of
             Inl e \<Rightarrow> Inl e
           | Inr p \<Rightarrow> Inr (strip p)))"


section \<open>Python values and the interpreter's parameters\<close>

text \<open>
  The values \<open>json.loads\<close> can return. A \<open>float\<close> is kept as the literal it was read
  from; a \<open>dict\<close> is the list of its items in insertion order, with distinct keys.
\<close>

datatype pyval =
    PNone
  | PBool bool
  | PInt int
  | PFloat pystr
  | PStr pystr
  | PList "pyval list"
  | PDict "(pystr \<times> pyval) list"

text \<open>
  What the script takes from the interpreter it runs on: \<open>int(x)\<close> for the float \<open>x\<close>
  read from a literal, the Unicode database's decimal digit value of a non-ASCII code
  point, \<open>sys.get_int_max_str_digits()\<close> (\<open>0\<close>: no limit) and the number of nested
  JSON containers the decoder can enter before \<open>RecursionError\<close>.
\<close>

record runtime =
  float_to_int :: "pystr \<Rightarrow> exn + int"
  unicode_decimal :: "nat \<Rightarrow> nat option"
  max_str_digits :: nat
  recursion_budget :: nat

subsection \<open>\<open>int(x)\<close>\<close>

definition is_digit :: "nat \<Rightarrow> bool" where
  "is_digit c \<longleftrightarrow> 48 \<le> c \<and> c \<le> 57"

definition decimal :: "pystr \<Rightarrow> nat" where
  "decimal ds = foldl (\<lambda>a c. 10 * a + (c - 48)) 0 ds"

text \<open>The length limit of the conversion between \<open>str\<close> and \<open>int\<close>.\<close>

definition over_limit :: "runtime \<Rightarrow> nat \<Rightarrow> bool" where
  "over_limit rt n \<longleftrightarrow> 640 < n \<and> 0 < max_str_digits rt \<and> max_str_digits rt < n"

definition ascii_space :: "nat \<Rightarrow> bool" where
  "ascii_space c \<longleftrightarrow> (9 \<le> c \<and> c \<le> 13) \<or> c = 32"

text \<open>
  Before parsing, \<open>int\<close> replaces a non-ASCII space by a blank and a non-ASCII decimal
  digit by its ASCII digit; any other non-ASCII code point becomes \<open>?\<close>.
\<close>

definition to_ascii :: "runtime \<Rightarrow> nat \<Rightarrow> nat" where
  "to_ascii rt c =
     (if c < 128 then c
      else if is_space c then 32
      else case unicode_decimal rt c of None \<Rightarrow> 63 | Some d \<Rightarrow> 48 + d)"

definition digit_or_underscore :: "nat \<Rightarrow> bool" where
  "digit_or_underscore c \<longleftrightarrow> is_digit c \<or> c = 95"

fun double_underscore :: "pystr \<Rightarrow> bool" where
  "double_underscore (a # b # cs) = ((a = 95 \<and> b = 95) \<or> double_underscore (b # cs))"
| "double_underscore _ = False"

definition int_of_str :: "runtime \<Rightarrow> pystr \<Rightarrow> exn + int" where
  "int_of_str rt s =
     (let b = dropWhile ascii_space (map (to_ascii rt) s);
          neg = (case b of [] \<Rightarrow> False | c # _ \<Rightarrow> c = 45);
          u = (case b of [] \<Rightarrow> [] | c # r \<Rightarrow> if c = 43 \<or> c = 45 then r else b);
          body = takeWhile digit_or_underscore u;
          rest = dropWhile digit_or_underscore u;
          ds = filter is_digit body
      in if body = [] then Inl ValueError
         else if hd body = 95 \<or> last body = 95 \<or> double_underscore body then Inl ValueError
         else if over_limit rt (length ds) then Inl ValueError
         else if \<not> list_all ascii_space rest then Inl ValueError
         else Inr (if neg then - int (decimal ds) else int (decimal ds)))"

definition py_int :: "runtime \<Rightarrow> pyval \<Rightarrow> exn + int" where
  "py_int rt v =
     (case v of
        PInt n \<Rightarrow> Inr n
      | PBool b \<Rightarrow> Inr (if b then 1 else 0)
      | PFloat lit \<Rightarrow> float_to_int rt lit
      | PStr s \<Rightarrow> int_of_str rt s
      | _ \<Rightarrow> Inl TypeError)"

subsection \<open>\<open>c[key]\<close> for a string key, and iteration\<close>

definition py_getitem :: "pyval \<Rightarrow> pystr \<Rightarrow> exn + pyval" where
  "py_getitem c key =
     (case c of
        PDict d \<Rightarrow> (case map_of d key of None \<Rightarrow> Inl (KeyError key) | Some v \<Rightarrow> Inr v)
      | _ \<Rightarrow> Inl TypeError)"

definition py_iter :: "pyval \<Rightarrow> exn + pyval list" where
  "py_iter v =
     (case v of
        PList xs \<Rightarrow> Inr xs
      | PDict d \<Rightarrow> Inr (map (\<lambda>(k, _). PStr k) d)
      | PStr s \<Rightarrow> Inr (map (\<lambda>c. PStr [c]) s)
      | _ \<Rightarrow> Inl TypeError)"

fun dict_set :: "(pystr \<times> pyval) list \<Rightarrow> pystr \<Rightarrow> pyval \<Rightarrow> (pystr \<times> pyval) list" where
  "dict_set [] k v = [(k, v)]"
| "dict_set ((k', v') # d) k v =
     (if k' = k then (k, v) # d else (k', v') # dict_set d k v)"

section \<open>\<open>json.loads\<close>\<close>

text \<open>
  The decoder of the standard library on a \<open>str\<close>, as CPython runs it: whitespace is
  blank, tab, newline and carriage return; strings are read in strict mode; a number
  without fraction and exponent is an \<open>int\<close>, any other a \<open>float\<close>; \<open>NaN\<close>,
  \<open>Infinity\<close> and \<open>-Infinity\<close> are accepted; a later member of an object replaces an
  earlier one with the same key. Every syntax error is a \<open>JSONDecodeError\<close>.
\<close>

definition json_ws :: "nat \<Rightarrow> bool" where
  "json_ws c \<longleftrightarrow> c = 32 \<or> c = 9 \<or> c = 10 \<or> c = 13"

definition skip_ws :: "pystr \<Rightarrow> pystr" where
  "skip_ws s = dropWhile json_ws s"

subsection \<open>Strings\<close>

definition hex_value :: "nat \<Rightarrow> nat option" where
  "hex_value c =
     (if 48 \<le> c \<and> c \<le> 57 then Some (c - 48)
      else if 97 \<le> c \<and> c \<le> 102 then Some (c - 87)
      else if 65 \<le> c \<and> c \<le> 70 then Some (c - 55)
      else None)"

text \<open>The four hexadecimal digits of a \<open>\uXXXX\<close> escape.\<close>

definition decode_uXXXX :: "pystr \<Rightarrow> (nat \<times> pystr) option" where
  "decode_uXXXX s =
     (case s of
        a # b # c # d # rest \<Rightarrow>
          (case (hex_value a, hex_value b, hex_value c, hex_value d) of
             (Some x, Some y, Some z, Some w) \<Rightarrow> Some (4096 * x + 256 * y + 16 * z + w, rest)
           | _ \<Rightarrow> None)
      | _ \<Rightarrow> None)"

definition backslash :: "nat \<Rightarrow> nat option" where
  "backslash c =
     (if c = 34 then Some 34
      else if c = 92 then Some 92
      else if c = 47 then Some 47
      else if c = 98 then Some 8
      else if c = 102 then Some 12
      else if c = 110 then Some 10
      else if c = 114 then Some 13
      else if c = 116 then Some 9
      else None)"

text \<open>
  One step of the string scanner, on the text after the opening quote: the closing quote,
  one character (plain or escaped), or an error.
\<close>

datatype chunk = Closing pystr | Character nat pystr | Invalid

definition next_chunk :: "pystr \<Rightarrow> chunk" where
  "next_chunk s =
     (case s of
        [] \<Rightarrow> Invalid
      | c # r \<Rightarrow>
          if c = 34 then Closing r
          else if c = 92 then
            (case r of
               [] \<Rightarrow> Invalid
             | e # r1 \<Rightarrow>
                 if e = 117 then
                   (case decode_uXXXX r1 of
                      None \<Rightarrow> Invalid
                    | Some (uni, r2) \<Rightarrow>
                        if 55296 \<le> uni \<and> uni \<le> 56319 \<and> take 2 r2 = [92, 117] then
                          (case decode_uXXXX (drop 2 r2) of
                             None \<Rightarrow> Invalid
                           | Some (uni2, r3) \<Rightarrow>
                               if 56320 \<le> uni2 \<and> uni2 \<le> 57343
                               then Character (65536 + ((uni - 55296) * 1024 + (uni2 - 56320))) r3
                               else Character uni r2)
                        else Character uni r2)
                 else (case backslash e of None \<Rightarrow> Invalid | Some ch \<Rightarrow> Character ch r1))
          else if c < 32 then Invalid
          else Character c r)"

lemma decode_uXXXX_length:
  "decode_uXXXX s = Some (u, r) \<Longrightarrow> length r < length s"
  by (auto simp: decode_uXXXX_def split: list.splits option.splits)

lemma next_chunk_length:
  assumes "next_chunk s = Character c r"
  shows "length r < length s"
proof (cases s)
  case Nil
  with assms show ?thesis by (simp add: next_chunk_def)
next
  case (Cons a s1)
  show ?thesis
  proof (cases "a = 92")
    case False
    with assms Cons show ?thesis by (auto simp: next_chunk_def split: if_splits)
  next
    case True
    show ?thesis
    proof (cases s1)
      case Nil
      with assms Cons True show ?thesis by (simp add: next_chunk_def)
    next
      case (Cons e r1)
      show ?thesis
      proof (cases "e = 117")
        case False
        with assms \<open>s = a # s1\<close> True Cons show ?thesis
          by (auto simp: next_chunk_def split: option.splits)
      next
        case u: True
        from assms \<open>s = a # s1\<close> True Cons u obtain uni r2
          where d1: "decode_uXXXX r1 = Some (uni, r2)"
          by (auto simp: next_chunk_def split: option.splits)
        then have l1: "length r2 < length r1" by (rule decode_uXXXX_length)
        from assms \<open>s = a # s1\<close> True Cons u d1
        have "r = r2 \<or> (\<exists>uni2. decode_uXXXX (drop 2 r2) = Some (uni2, r))"
          by (auto simp: next_chunk_def split: option.splits if_splits)
        then have "length r \<le> length r2"
          by (auto dest: decode_uXXXX_length)
        with l1 \<open>s = a # s1\<close> Cons show ?thesis by simp
      qed
    qed
  qed
qed

function scanstring :: "pystr \<Rightarrow> pystr \<Rightarrow> exn + (pystr \<times> pystr)" where
  "scanstring s acc =
     (case next_chunk s of
        Invalid \<Rightarrow> Inl JSONDecodeError
      | Closing r \<Rightarrow> Inr (rev acc, r)
      | Character c r \<Rightarrow> scanstring r (c # acc))"
  by pat_completeness auto
termination
  by (relation "measure (\<lambda>(s, acc). length s)") (auto dest: next_chunk_length)

subsection \<open>Numbers\<close>

definition match_int :: "pystr \<Rightarrow> (pystr \<times> pystr) option" where
  "match_int s =
     (let sign = (case s of [] \<Rightarrow> [] | c # _ \<Rightarrow> if c = 45 then [45] else []);
          r = drop (length sign) s
      in case r of
           [] \<Rightarrow> None
         | c # r1 \<Rightarrow>
             if c = 48 then Some (sign @ [48], r1)
             else if is_digit c then Some (sign @ c # takeWhile is_digit r1, dropWhile is_digit r1)
             else None)"

definition match_frac :: "pystr \<Rightarrow> (pystr \<times> pystr) option" where
  "match_frac s =
     (case s of
        p # c # r \<Rightarrow>
          if p = 46 \<and> is_digit c then Some (p # c # takeWhile is_digit r, dropWhile is_digit r)
          else None
      | _ \<Rightarrow> None)"

definition match_exp :: "pystr \<Rightarrow> (pystr \<times> pystr) option" where
  "match_exp s =
     (case s of
        [] \<Rightarrow> None
      | e # r \<Rightarrow>
          if e = 101 \<or> e = 69 then
            (let sign = (case r of [] \<Rightarrow> [] | c # _ \<Rightarrow> if c = 43 \<or> c = 45 then [c] else []);
                 r1 = drop (length sign) r
             in case r1 of
                  [] \<Rightarrow> None
                | c # r2 \<Rightarrow>
                    if is_digit c
                    then Some (e # sign @ c # takeWhile is_digit r2, dropWhile is_digit r2)
                    else None)
          else None)"

text \<open>\<open>int(integer)\<close> for the integer part of a number, which may carry a minus sign.\<close>

definition int_literal :: "runtime \<Rightarrow> pystr \<Rightarrow> exn + pyval" where
  "int_literal rt i =
     (let ds = filter is_digit i
      in if over_limit rt (length ds) then Inl ValueError
         else Inr (PInt (if take 1 i = [45] then - int (decimal ds) else int (decimal ds))))"

definition match_number :: "runtime \<Rightarrow> pystr \<Rightarrow> ((exn + pyval) \<times> pystr) option" where
  "match_number rt s =
     (case match_int s of
        None \<Rightarrow> None
      | Some (i, r1) \<Rightarrow>
          (let (f, r2) = (case match_frac r1 of None \<Rightarrow> ([], r1) | Some fr \<Rightarrow> fr);
               (e, r3) = (case match_exp r2 of None \<Rightarrow> ([], r2) | Some er \<Rightarrow> er)
           in Some (if f = [] \<and> e = [] then int_literal rt i else Inr (PFloat (i @ f @ e)), r3)))"

text \<open>A value that is not a string, an object or an array.\<close>

definition scan_atom :: "runtime \<Rightarrow> pystr \<Rightarrow> exn + (pyval \<times> pystr)" where
  "scan_atom rt s =
     (if prefix (ustr ''null'') s then Inr (PNone, drop 4 s)
      else if prefix (ustr ''true'') s then Inr (PBool True, drop 4 s)
      else if prefix (ustr ''false'') s then Inr (PBool False, drop 5 s)
      else case match_number rt s of
             Some (Inl e, r) \<Rightarrow> Inl e
           | Some (Inr v, r) \<Rightarrow> Inr (v, r)
           | None \<Rightarrow>
               if prefix (ustr ''NaN'') s then Inr (PFloat (ustr ''NaN''), drop 3 s)
               else if prefix (ustr ''Infinity'') s then Inr (PFloat (ustr ''Infinity''), drop 8 s)
               else if prefix (ustr ''-Infinity'') s then Inr (PFloat (ustr ''-Infinity''), drop 9 s)
               else Inl JSONDecodeError)"

subsection \<open>Values\<close>

text \<open>
  \<open>scan_once d n s\<close> reads one value at the start of \<open>s\<close> and returns it with the rest
  of the text. \<open>d\<close> is the number of containers that may still be entered. The loops over
  the items of an array and the members of an object run at most \<open>n\<close> times, where \<open>n\<close>
  is the length of the whole text: every item takes at least one character, so the bound
  is never reached (lemma \<open>bound_irrelevant\<close> below).
\<close>

fun scan_once :: "runtime \<Rightarrow> nat \<Rightarrow> nat \<Rightarrow> pystr \<Rightarrow> exn + (pyval \<times> pystr)"
  and parse_array :: "runtime \<Rightarrow> nat \<Rightarrow> nat \<Rightarrow> nat \<Rightarrow> pystr \<Rightarrow> pyval list \<Rightarrow> exn + (pyval \<times> pystr)"
  and parse_object :: "runtime \<Rightarrow> nat \<Rightarrow> nat \<Rightarrow> nat \<Rightarrow> pystr \<Rightarrow> (pystr \<times> pyval) list \<Rightarrow> exn + (pyval \<times> pystr)"
where
  "scan_once rt d n [] = Inl JSONDecodeError"
| "scan_once rt d n (c # r) =
     (if c = 34 then
        (case scanstring r [] of Inl e \<Rightarrow> Inl e | Inr (str, r1) \<Rightarrow> Inr (PStr str, r1))
      else if c = 123 then
        (case d of
           0 \<Rightarrow> Inl RecursionError
         | Suc d1 \<Rightarrow>
             (case skip_ws r of
                [] \<Rightarrow> Inl JSONDecodeError
              | c1 # r1 \<Rightarrow>
                  if c1 = 125 then Inr (PDict [], r1)
                  else parse_object rt d1 n n (c1 # r1) []))
      else if c = 91 then
        (case d of
           0 \<Rightarrow> Inl RecursionError
         | Suc d1 \<Rightarrow>
             (case skip_ws r of
                [] \<Rightarrow> Inl JSONDecodeError
              | c1 # r1 \<Rightarrow>
                  if c1 = 93 then Inr (PList [], r1)
                  else parse_array rt d1 n n (c1 # r1) []))
      else scan_atom rt (c # r))"
| "parse_array rt d n 0 s acc = Inl JSONDecodeError"
| "parse_array rt d n (Suc k) s acc =
     (case scan_once rt d n s of
        Inl e \<Rightarrow> Inl e
      | Inr (v, r) \<Rightarrow>
          (case skip_ws r of
             [] \<Rightarrow> Inl JSONDecodeError
           | c # r1 \<Rightarrow>
               if c = 93 then Inr (PList (rev (v # acc)), r1)
               else if c = 44 then parse_array rt d n k (skip_ws r1) (v # acc)
               else Inl JSONDecodeError))"
| "parse_object rt d n 0 s acc = Inl JSONDecodeError"
| "parse_object rt d n (Suc k) s acc =
     (case s of
        [] \<Rightarrow> Inl JSONDecodeError
      | q # r \<Rightarrow>
          if q \<noteq> 34 then Inl JSONDecodeError
          else
            (case scanstring r [] of
               Inl e \<Rightarrow> Inl e
             | Inr (key, r1) \<Rightarrow>
                 (case skip_ws r1 of
                    [] \<Rightarrow> Inl JSONDecodeError
                  | c # r2 \<Rightarrow>
                      if c \<noteq> 58 then Inl JSONDecodeError
                      else
                        (case scan_once rt d n (skip_ws r2) of
                           Inl e \<Rightarrow> Inl e
                         | Inr (v, r3) \<Rightarrow>
                             (case skip_ws r3 of
                                [] \<Rightarrow> Inl JSONDecodeError
                              | c2 # r4 \<Rightarrow>
                                  if c2 = 125 then Inr (PDict (dict_set acc key v), r4)
                                  else if c2 = 44
                                  then parse_object rt d n k (skip_ws r4) (dict_set acc key v)
                                  else Inl JSONDecodeError)))))"

definition json_loads :: "runtime \<Rightarrow> pystr \<Rightarrow> exn + pyval" where
  "json_loads rt s =
     (if take 1 s = [65279] then Inl JSONDecodeError
      else case scan_once rt (recursion_budget rt) (length s) (skip_ws s) of
             Inl e \<Rightarrow> Inl e
           | Inr (obj, r) \<Rightarrow> if skip_ws r = [] then Inr obj else Inl JSONDecodeError)"

section \<open>The code-hosting service\<close>

text \<open>A commit, named by its SHA.\<close>

datatype commit = Commit pystr

text \<open>
  The calls the script makes on the pull request: \<open>pr.create_review_comment(body, commit,
  path, line)\<close>, \<open>pr.add_to_assignees(user)\<close> and \<open>pr.create_issue_comment(body)\<close>.
  \<open>HUMAN_REVIEWER\<close> is \<open>None\<close> when the environment variable is not set.
\<close>

datatype call =
    CreateReviewComment pyval commit pyval int
  | AddToAssignees "pystr option"
  | CreateIssueComment pystr

text \<open>
  The service decides whether a call raises, given the calls made before it and how they
  ended; \<open>None\<close> is a call that returns.
\<close>

type_synonym trace = "(call \<times> exn option) list"

type_synonym service = "trace \<Rightarrow> call \<Rightarrow> exn option"

definition invoke :: "service \<Rightarrow> trace \<Rightarrow> call \<Rightarrow> exn option \<times> trace" where
  "invoke svc tr c = (svc tr c, tr @ [(c, svc tr c)])"

section \<open>The Comment Applier\<close>

text \<open>\<open>str(x)\<close> inside an f-string, for a value that is a \<open>str\<close> or \<open>None\<close>.\<close>

definition format_opt :: "pystr option \<Rightarrow> pystr" where
  "format_opt x = (case x of None \<Rightarrow> ustr ''None'' | Some s \<Rightarrow> s)"

text \<open>
  The arguments of \<open>pr.create_review_comment\<close> for one entry \<open>c\<close>, evaluated in the order
  they are written: \<open>c['comment']\<close>, \<open>c['path']\<close>, \<open>int(c['line'])\<close>.
\<close>

definition review_comment_call :: "runtime \<Rightarrow> commit \<Rightarrow> pyval \<Rightarrow> exn + call" where
  "review_comment_call rt commit c =
     (case py_getitem c (ustr ''comment'') of
        Inl e \<Rightarrow> Inl e
      | Inr body \<Rightarrow>
          (case py_getitem c (ustr ''path'') of
             Inl e \<Rightarrow> Inl e
           | Inr path \<Rightarrow>
               (case py_getitem c (ustr ''line'') of
                  Inl e \<Rightarrow> Inl e
                | Inr l \<Rightarrow>
                    (case py_int rt l of
                       Inl e \<Rightarrow> Inl e
                     | Inr n \<Rightarrow> Inr (CreateReviewComment body commit path n)))))"

text \<open>The loop \<open>for c in comments\<close>; it stops at the first exception.\<close>

fun post_comments ::
  "runtime \<Rightarrow> service \<Rightarrow> commit \<Rightarrow> pyval list \<Rightarrow> trace \<Rightarrow> exn option \<times> trace" where
  "post_comments rt svc commit [] tr = (None, tr)"
| "post_comments rt svc commit (c # cs) tr =
     (case review_comment_call rt commit c of
        Inl e \<Rightarrow> (Some e, tr)
      | Inr cl \<Rightarrow>
          (case invoke svc tr cl of
             (Some e, tr1) \<Rightarrow> (Some e, tr1)
           | (None, tr1) \<Rightarrow> post_comments rt svc commit cs tr1))"

definition handoff_message :: "pystr option \<Rightarrow> pystr" where
  "handoff_message reviewer =
     ustr ''AI Review complete. Reassigning to @'' @ format_opt reviewer @
     ustr '' for final sign-off.''"

text \<open>
  The body of the \<open>try\<close> statement: the exception it raises, if any, and the calls made.
\<close>

definition try_body ::
  "runtime \<Rightarrow> service \<Rightarrow> pystr option \<Rightarrow> pystr \<Rightarrow> commit \<Rightarrow> exn option \<times> trace" where
  "try_body rt svc reviewer raw_response commit =
     (case json_str raw_response of
        Inl e \<Rightarrow> (Some e, [])
      | Inr js \<Rightarrow>
          (case json_loads rt js of
             Inl e \<Rightarrow> (Some e, [])
           | Inr comments \<Rightarrow>
               (case py_iter comments of
                  Inl e \<Rightarrow> (Some e, [])
                | Inr cs \<Rightarrow>
                    (case post_comments rt svc commit cs [] of
                       (Some e, tr) \<Rightarrow> (Some e, tr)
                     | (None, tr) \<Rightarrow>
                         if contains (ustr ''READY_FOR_HUMAN_REVIEW'') raw_response then
                           (case invoke svc tr (AddToAssignees reviewer) of
                              (Some e, tr1) \<Rightarrow> (Some e, tr1)
                            | (None, tr1) \<Rightarrow>
                                invoke svc tr1 (CreateIssueComment (handoff_message reviewer)))
                         else (None, tr)))))"

definition error_message :: "pystr \<Rightarrow> pystr" where
  "error_message raw_response = ustr ''AI Review Error: '' @ raw_response"

text \<open>
  What one run of \<open>apply_line_comments\<close> does: the calls made on the service with their
  outcomes, the exceptions reported by \<open>print\<close>, and the exception that leaves the
  function, if any (one raised by the fallback call itself).
\<close>

record outcome =
  calls :: trace
  printed :: "exn list"
  raised :: "exn option"

definition apply_line_comments ::
  "runtime \<Rightarrow> service \<Rightarrow> pystr option \<Rightarrow> pystr \<Rightarrow> commit \<Rightarrow> outcome" where
  "apply_line_comments rt svc reviewer raw_response commit =
     (case try_body rt svc reviewer raw_response commit of
        (None, tr) \<Rightarrow> \<lparr>calls = tr, printed = [], raised = None\<rparr>
      | (Some e, tr) \<Rightarrow>
          (case invoke svc tr (CreateIssueComment (error_message raw_response)) of
             (r, tr1) \<Rightarrow> \<lparr>calls = tr1, printed = [e], raised = r\<rparr>))"

section \<open>The Review Generator\<close>

text \<open>One changed file of a comparison; \<open>patch\<close> is \<open>None\<close> when the service sends none.\<close>

record changed_file =
  filename :: pystr
  patch :: "pystr option"

record pull_request =
  base_sha :: pystr
  head_sha :: pystr

text \<open>
  Everything outside the script that a run reads or calls, each with the exception it
  raises or the value it returns.
\<close>

record world =
  argv :: "pystr list"
  human_reviewer :: "pystr option"
  genai_configure :: "exn option"
  github_client :: "exn option"
  get_repo :: "pystr \<Rightarrow> exn option"
  get_pull :: "int \<Rightarrow> exn + pull_request"
  read_standards :: "exn + pystr"
  get_commits :: "exn + commit list"
  compare :: "pystr \<Rightarrow> pystr \<Rightarrow> exn + changed_file list"
  generative_model :: "exn option"
  generate_content :: "pystr \<Rightarrow> exn + pystr"
  github :: service

text \<open>The external calls of a run, in the order they are made.\<close>

datatype event =
    GenaiConfigure
  | GithubClient
  | GetRepo pystr
  | GetPull int
  | ReadStandards
  | GetCommits
  | Compare pystr pystr
  | GenerativeModel
  | GenerateContent pystr
  | PullRequestCall call

definition file_entry :: "changed_file \<Rightarrow> pystr" where
  "file_entry f = ustr ''File: '' @ filename f @ [10] @ format_opt (patch f) @ [10, 10]"

text \<open>The loop \<open>for file in comparison.files: diff_content += ...\<close>\<close>

definition diff_content :: "changed_file list \<Rightarrow> pystr" where
  "diff_content files = foldl (\<lambda>acc f. acc @ file_entry f) [] files"

definition nl :: pystr where
  "nl = [10]"

definition prompt :: "pystr \<Rightarrow> pystr \<Rightarrow> pystr" where
  "prompt standards diff =
     nl @ ustr ''    Review this PR for the Flutter IntelliJ plugin based on these standards:'' @
     nl @ ustr ''    '' @ standards @ nl @
     nl @ ustr ''    PR DIFF:'' @
     nl @ ustr ''    '' @ diff @ nl @
     nl @ ustr ''    INSTRUCTIONS:'' @
     nl @ ustr ''    Return your review as a JSON list of objects. Each object MUST have:'' @
     nl @ ustr ''    \"path\": (the file path),'' @
     nl @ ustr ''    \"line\": (the line number in the new code),'' @
     nl @ ustr ''    \"comment\": (your feedback).'' @ nl @
     nl @ ustr ''    If no issues are found, return an empty list [].'' @
     nl @ ustr ''    Finally, append the string \"ACTION: READY_FOR_HUMAN_REVIEW\" at the very end outside the JSON.'' @
     nl @ ustr ''    ''"

text \<open>\<open>pr.get_commits().reversed[0]\<close>\<close>

definition latest_of :: "commit list \<Rightarrow> exn + commit" where
  "latest_of cs = first_item (rev cs)"

text \<open>
  \<open>get_line_specific_review\<close>: the events of the call, and the exception raised or the
  pair returned.
\<close>

definition get_line_specific_review ::
  "world \<Rightarrow> pull_request \<Rightarrow> event list \<times> (exn + pystr \<times> commit)" where
  "get_line_specific_review w pr =
     (case read_standards w of
        Inl e \<Rightarrow> ([ReadStandards], Inl e)
      | Inr standards \<Rightarrow>
          (case get_commits w of
             Inl e \<Rightarrow> ([ReadStandards, GetCommits], Inl e)
           | Inr cs \<Rightarrow>
               (case latest_of cs of
                  Inl e \<Rightarrow> ([ReadStandards, GetCommits], Inl e)
                | Inr latest_commit \<Rightarrow>
                    (let ev = [ReadStandards, GetCommits, Compare (base_sha pr) (head_sha pr)]
                     in case compare w (base_sha pr) (head_sha pr) of
                          Inl e \<Rightarrow> (ev, Inl e)
                        | Inr files \<Rightarrow>
                            (let p = prompt standards (diff_content files)
                             in case generative_model w of
                                  Some e \<Rightarrow> (ev @ [GenerativeModel], Inl e)
                                | None \<Rightarrow>
                                    (case generate_content w p of
                                       Inl e \<Rightarrow>
                                         (ev @ [GenerativeModel, GenerateContent p], Inl e)
                                     | Inr response_text \<Rightarrow>
                                         (ev @ [GenerativeModel, GenerateContent p],
                                          Inr (response_text, latest_commit))))))))"

text \<open>\<open>PR_NUMBER = int(sys.argv[1])\<close>\<close>

definition pr_number :: "runtime \<Rightarrow> pystr list \<Rightarrow> exn + int" where
  "pr_number rt args =
     (case args of
        _ # a # _ \<Rightarrow> int_of_str rt a
      | _ \<Rightarrow> Inl IndexError)"

text \<open>The statements of the module up to \<open>pr = repo.get_pull(PR_NUMBER)\<close>.\<close>

definition module_setup :: "runtime \<Rightarrow> world \<Rightarrow> event list \<times> (exn + pull_request)" where
  "module_setup rt w =
     (case pr_number rt (argv w) of
        Inl e \<Rightarrow> ([], Inl e)
      | Inr n \<Rightarrow>
          (case genai_configure w of
             Some e \<Rightarrow> ([GenaiConfigure], Inl e)
           | None \<Rightarrow>
               (case github_client w of
                  Some e \<Rightarrow> ([GenaiConfigure, GithubClient], Inl e)
                | None \<Rightarrow>
                    (let ev = [GenaiConfigure, GithubClient,
                               GetRepo (ustr ''flutter/flutter-intellij'')]
                     in case get_repo w (ustr ''flutter/flutter-intellij'') of
                          Some e \<Rightarrow> (ev, Inl e)
                        | None \<Rightarrow>
                            (case get_pull w n of
                               Inl e \<Rightarrow> (ev @ [GetPull n], Inl e)
                             | Inr pr \<Rightarrow> (ev @ [GetPull n], Inr pr))))))"

text \<open>
  A run of the script: the external calls made, what \<open>print\<close> reported, and the exception
  that ends the process, if any.
\<close>

record run =
  events :: "event list"
  reported :: "exn list"
  uncaught :: "exn option"

definition script :: "runtime \<Rightarrow> world \<Rightarrow> run" where
  "script rt w =
     (case module_setup rt w of
        (ev, Inl e) \<Rightarrow> \<lparr>events = ev, reported = [], uncaught = Some e\<rparr>
      | (ev, Inr pr) \<Rightarrow>
          (case get_line_specific_review w pr of
             (ev1, Inl e) \<Rightarrow> \<lparr>events = ev @ ev1, reported = [], uncaught = Some e\<rparr>
           | (ev1, Inr (raw_text, commit)) \<Rightarrow>
               (let out = apply_line_comments rt (github w) (human_reviewer w) raw_text commit
                in \<lparr>events = ev @ ev1 @ map (\<lambda>(c, _). PullRequestCall c) (calls out),
                    reported = printed out,
                    uncaught = raised out\<rparr>)))"

section \<open>Notions used to state the properties\<close>

text \<open>
  \<open>entry_call rt commit c cl\<close>: the entry \<open>c\<close> is an object with the keys \<open>comment\<close>,
  \<open>path\<close> and \<open>line\<close>, \<open>int\<close> converts its line, and \<open>cl\<close> is the line-comment call that
  carries its comment, its path and its line, on the commit \<open>commit\<close>.
\<close>

definition entry_call :: "runtime \<Rightarrow> commit \<Rightarrow> pyval \<Rightarrow> call \<Rightarrow> bool" where
  "entry_call rt commit c cl =
     (case c of
        PDict d \<Rightarrow>
          (case cl of
             CreateReviewComment body cm path n \<Rightarrow>
               map_of d (ustr ''comment'') = Some body \<and> cm = commit \<and>
               map_of d (ustr ''path'') = Some path \<and>
               (case map_of d (ustr ''line'') of None \<Rightarrow> False | Some l \<Rightarrow> py_int rt l = Inr n)
           | _ \<Rightarrow> False)
      | _ \<Rightarrow> False)"

text \<open>The calls \<open>cls\<close>, all of which returned.\<close>

definition returned :: "call list \<Rightarrow> trace" where
  "returned cls = map (\<lambda>cl. (cl, None)) cls"

text \<open>The service lets each call of \<open>cls\<close> return, when they are made in this order after \<open>tr\<close>.\<close>

fun accepts :: "service \<Rightarrow> trace \<Rightarrow> call list \<Rightarrow> bool" where
  "accepts svc tr [] = True"
| "accepts svc tr (cl # cls) = (svc tr cl = None \<and> accepts svc (tr @ [(cl, None)]) cls)"

fun is_review_comment :: "call \<Rightarrow> bool" where
  "is_review_comment (CreateReviewComment _ _ _ _) = True"
| "is_review_comment _ = False"

fun is_assignment :: "call \<Rightarrow> bool" where
  "is_assignment (AddToAssignees _) = True"
| "is_assignment _ = False"

text \<open>
  An interpreter with the default limits, for the examples. None of the examples contains
  a float or a non-ASCII digit, so its two tables are never consulted.
\<close>

definition example_runtime :: runtime where
  "example_runtime =
     \<lparr>float_to_int = (\<lambda>_. Inl OverflowError), unicode_decimal = (\<lambda>_. None),
      max_str_digits = 4300, recursion_budget = 100\<rparr>"

text \<open>
  Services for the examples: one on which every call returns, one that refuses assignment,
  one that refuses the handoff comment, and one that refuses every line comment but the
  first.
\<close>

definition accept_all :: service where
  "accept_all tr cl = None"

definition refuse_assignment :: service where
  "refuse_assignment tr cl = (if is_assignment cl then Some (ExternalError 422) else None)"

definition refuse_after_first :: service where
  "refuse_after_first tr cl =
     (if is_review_comment cl \<and> tr \<noteq> [] then Some (ExternalError 422) else None)"

definition alice :: "pystr option" where
  "alice = Some (ustr ''alice'')"

definition head_commit :: commit where
  "head_commit = Commit (ustr ''c0ffee'')"

text \<open>A response with one finding and the marker, and the same with a trailing comma.\<close>

definition one_finding :: pystr where
  "one_finding =
     ustr ''[{\"path\":\"lib/a.dart\",\"line\":10,\"comment\":\"fix this\"}] ACTION: READY_FOR_HUMAN_REVIEW''"

definition trailing_comma :: pystr where
  "trailing_comma =
     ustr ''[{\"path\":\"lib/a.dart\",\"line\":10,\"comment\":\"fix this\"},] ACTION: READY_FOR_HUMAN_REVIEW''"

definition two_findings :: pystr where
  "two_findings =
     ustr ''[{\"path\":\"lib/a.dart\",\"line\":10,\"comment\":\"fix this\"}, {\"path\":\"lib/b.dart\",\"line\":\"20\",\"comment\":\"rename\"}] ACTION: READY_FOR_HUMAN_REVIEW''"

definition two_findings_call :: call where
  "two_findings_call =
     CreateReviewComment (PStr (ustr ''rename'')) head_commit (PStr (ustr ''lib/b.dart'')) 20"

definition refuse_handoff :: service where
  "refuse_handoff tr cl =
     (if cl = CreateIssueComment (handoff_message alice) then Some (ExternalError 422) else None)"

definition one_finding_call :: call where
  "one_finding_call =
     CreateReviewComment (PStr (ustr ''fix this'')) head_commit (PStr (ustr ''lib/a.dart'')) 10"

text \<open>A response whose line is not a number, and one with \<open>ACTION:\<close> inside a comment.\<close>

definition bad_line :: pystr where
  "bad_line = ustr ''[{\"path\":\"lib/a.dart\",\"line\":\"ten\",\"comment\":\"fix this\"}]''"

definition action_in_comment :: pystr where
  "action_in_comment =
     ustr ''[{\"path\":\"lib/a.dart\",\"line\":10,\"comment\":\"see ACTION: below\"}] ACTION: READY_FOR_HUMAN_REVIEW''"

text \<open>
  A world for the examples: pull request 42 exists and has two commits and two changed
  files, the second of them without a patch; every other pull request is unknown.
\<close>

definition example_pull :: pull_request where
  "example_pull = \<lparr>base_sha = ustr ''ba5e'', head_sha = ustr ''c0ffee''\<rparr>"

definition example_files :: "changed_file list" where
  "example_files =
     [\<lparr>filename = ustr ''lib/b.dart'', patch = Some (ustr ''+x'')\<rparr>,
      \<lparr>filename = ustr ''lib/a.png'', patch = None\<rparr>]"

definition example_world :: world where
  "example_world =
     \<lparr>argv = [ustr ''review-agent.py'', ustr ''42''],
      human_reviewer = alice,
      genai_configure = None,
      github_client = None,
      get_repo = (\<lambda>name. None),
      get_pull = (\<lambda>n. if n = 42 then Inr example_pull else Inl (ExternalError 404)),
      read_standards = Inr (ustr ''Be kind.''),
      get_commits = Inr [Commit (ustr ''0ld''), head_commit],
      compare = (\<lambda>base head. Inr example_files),
      generative_model = None,
      generate_content = (\<lambda>p. Inr one_finding),
      github = accept_all\<rparr>"

definition unknown_pull_world :: world where
  "unknown_pull_world = example_world\<lparr>argv := [ustr ''review-agent.py'', ustr ''7'']\<rparr>"

text \<open>A response with one finding and no marker.\<close>

definition no_marker :: pystr where
  "no_marker = ustr ''[{\"path\":\"lib/a.dart\",\"line\":10,\"comment\":\"fix this\"}]''"

text \<open>The example world, with a model that answers with two findings.\<close>

definition two_findings_world :: world where
  "two_findings_world = example_world\<lparr>generate_content := (\<lambda>p. Inr two_findings)\<rparr>"

text \<open>The line-comment calls among the events of a run.\<close>

fun is_review_event :: "event \<Rightarrow> bool" where
  "is_review_event (PullRequestCall cl) = is_review_comment cl"
| "is_review_event _ = False"

section \<open>Evaluation of the examples\<close>

lemmas eval_defs =
  ustr_def json_str_def py_split_def first_item_def strip_def is_space_def
  json_loads_def skip_ws_def json_ws_def next_chunk_def decode_uXXXX_def hex_value_def backslash_def
  match_int_def match_frac_def match_exp_def int_literal_def match_number_def scan_atom_def
  is_digit_def decimal_def over_limit_def ascii_space_def to_ascii_def digit_or_underscore_def
  int_of_str_def py_int_def py_getitem_def py_iter_def
  invoke_def format_opt_def review_comment_call_def handoff_message_def try_body_def
  error_message_def apply_line_comments_def
  example_runtime_def accept_all_def refuse_assignment_def refuse_after_first_def refuse_handoff_def
  alice_def head_commit_def one_finding_def trailing_comma_def one_finding_call_def
  two_findings_def two_findings_call_def bad_line_def action_in_comment_def
  example_pull_def example_files_def example_world_def unknown_pull_world_def
  no_marker_def two_findings_world_def
  entry_call_def returned_def


section \<open>Properties of the text operations\<close>

lemma contains_iff: "contains n s \<longleftrightarrow> (\<exists>pre post. s = pre @ n @ post)"
proof (induction s)
  case Nil
  then show ?case by auto
next
  case (Cons x xs)
  show ?case
  proof
    assume "contains n (x # xs)"
    then consider "prefix n (x # xs)" | "contains n xs" by auto
    then show "\<exists>pre post. x # xs = pre @ n @ post"
    proof cases
      case 1
      then obtain post where "x # xs = n @ post" by (auto simp: prefix_def)
      then have "x # xs = [] @ n @ post" by simp
      then show ?thesis by blast
    next
      case 2
      with Cons.IH obtain pre post where "xs = pre @ n @ post" by blast
      then have "x # xs = (x # pre) @ n @ post" by simp
      then show ?thesis by blast
    qed
  next
    assume "\<exists>pre post. x # xs = pre @ n @ post"
    then obtain pre post where eq: "x # xs = pre @ n @ post" by blast
    show "contains n (x # xs)"
    proof (cases pre)
      case Nil
      with eq have "prefix n (x # xs)" by (simp add: prefix_def)
      then show ?thesis by simp
    next
      case (Cons y ys)
      with eq have "xs = ys @ n @ post" by simp
      with Cons.IH have "contains n xs" by blast
      then show ?thesis by simp
    qed
  qed
qed

lemma find_sep_None: "sep \<noteq> [] \<Longrightarrow> (find_sep sep s = None) \<longleftrightarrow> \<not> contains sep s"
  by (induction s) auto

lemma find_sep_Some:
  "find_sep sep s = Some (pre, rest) \<Longrightarrow> s = pre @ sep @ rest"
proof (induction s arbitrary: pre)
  case Nil
  then show ?case by (simp split: if_splits)
next
  case (Cons x xs)
  show ?case
  proof (cases "prefix sep (x # xs)")
    case True
    with Cons.prems have "pre = []" "rest = drop (length sep) (x # xs)" by auto
    moreover from True obtain r where "x # xs = sep @ r" by (auto simp: prefix_def)
    ultimately show ?thesis by simp
  next
    case False
    with Cons.prems obtain p where "find_sep sep xs = Some (p, rest)" and "pre = x # p"
      by auto
    with Cons.IH show ?thesis by simp
  qed
qed

lemma find_sep_first:
  "sep \<noteq> [] \<Longrightarrow> \<not> contains sep (pre @ butlast sep) \<Longrightarrow>
   find_sep sep (pre @ sep @ rest) = Some (pre, rest)"
proof (induction pre)
  case Nil
  then show ?case by (cases sep) auto
next
  case (Cons x xs)
  have np: "\<not> prefix sep (x # xs @ sep @ rest)"
  proof
    assume p: "prefix sep (x # xs @ sep @ rest)"
    have "length sep \<le> length ((x # xs) @ butlast sep)" by simp
    moreover have "x # xs @ sep @ rest = ((x # xs) @ butlast sep) @ (last sep # rest)"
      using Cons.prems(1) by simp
    ultimately have "prefix sep ((x # xs) @ butlast sep)"
      using p by (metis prefix_length_prefix prefixI)
    with Cons.prems(2) show False by simp
  qed
  from Cons.prems have "\<not> contains sep (xs @ butlast sep)" by simp
  with Cons.IH Cons.prems(1) have "find_sep sep (xs @ sep @ rest) = Some (xs, rest)" by simp
  with np show ?case by simp
qed

lemma find_sep_no_earlier:
  "sep \<noteq> [] \<Longrightarrow> find_sep sep s = Some (pre, rest) \<Longrightarrow> \<not> contains sep (pre @ butlast sep)"
proof (induction s arbitrary: pre)
  case Nil
  then show ?case by simp
next
  case (Cons x xs)
  show ?case
  proof (cases "prefix sep (x # xs)")
    case True
    with Cons.prems have "pre = []" by auto
    moreover have "\<not> contains sep (butlast sep)"
    proof
      assume "contains sep (butlast sep)"
      then obtain p q where "butlast sep = p @ sep @ q" by (auto simp: contains_iff)
      then have "length (butlast sep) = length (p @ sep @ q)" by (rule arg_cong)
      then have "length sep - 1 = length p + length sep + length q"
        by (simp only: length_butlast length_append)
      moreover from Cons.prems(1) have "0 < length sep" by simp
      ultimately show False by arith
    qed
    ultimately show ?thesis by simp
  next
    case False
    with Cons.prems obtain p where f: "find_sep sep xs = Some (p, rest)" and pre: "pre = x # p"
      by auto
    from Cons.IH [OF Cons.prems(1) f] have a: "\<not> contains sep (p @ butlast sep)" .
    from find_sep_Some [OF f] have xs: "xs = p @ sep @ rest" .
    have b: "\<not> prefix sep (x # p @ butlast sep)"
    proof
      assume "prefix sep (x # p @ butlast sep)"
      moreover have "prefix (x # p @ butlast sep) (x # xs)"
        using xs Cons.prems(1) by (metis Cons_prefix_Cons append_butlast_last_id append.assoc prefixI same_prefix_prefix)
      ultimately have "prefix sep (x # xs)" by (rule prefix_order.trans)
      with False show False by simp
    qed
    from a b pre show ?thesis by simp
  qed
qed

lemma ustr_ACTION_nonempty: "ustr ''ACTION:'' \<noteq> []"
  by (simp add: ustr_def)

lemma json_str_found:
  "find_sep (ustr ''ACTION:'') raw = Some (pre, rest) \<Longrightarrow> json_str raw = Inr (strip pre)"
  by (simp add: json_str_def py_split_def first_item_def ustr_ACTION_nonempty)

lemma json_str_absent:
  "find_sep (ustr ''ACTION:'') raw = None \<Longrightarrow> json_str raw = Inr (strip raw)"
  by (simp add: json_str_def py_split_def first_item_def ustr_ACTION_nonempty)


text \<open>
  Claim C4. The text handed to the JSON parser is the part of the raw response before the
  literal \<open>ACTION:\<close> (its leftmost occurrence: no occurrence of \<open>ACTION:\<close> begins
  inside \<open>pre\<close>), with surrounding whitespace stripped; when \<open>ACTION:\<close> does not occur,
  it is the whole raw response, stripped.
\<close>

theorem json_str_before_ACTION:
  "(\<not> contains (ustr ''ACTION:'') raw \<longrightarrow> json_str raw = Inr (strip raw)) \<and>
   (\<forall>pre rest. raw = pre @ ustr ''ACTION:'' @ rest \<and>
        \<not> contains (ustr ''ACTION:'') (pre @ butlast (ustr ''ACTION:'')) \<longrightarrow>
        json_str raw = Inr (strip pre))"
proof (intro conjI allI impI)
  assume "\<not> contains (ustr ''ACTION:'') raw"
  then have "find_sep (ustr ''ACTION:'') raw = None"
    by (simp add: find_sep_None ustr_ACTION_nonempty)
  then show "json_str raw = Inr (strip raw)" by (rule json_str_absent)
next
  fix pre rest
  assume a: "raw = pre @ ustr ''ACTION:'' @ rest \<and>
        \<not> contains (ustr ''ACTION:'') (pre @ butlast (ustr ''ACTION:''))"
  then have "find_sep (ustr ''ACTION:'') raw = Some (pre, rest)"
    using find_sep_first [OF ustr_ACTION_nonempty, of pre rest] by simp
  then show "json_str raw = Inr (strip pre)" by (rule json_str_found)
qed

theorem json_str_before_ACTION_witness:
  "\<not> contains (ustr ''ACTION:'') (ustr '' [1] '') \<and>
   json_str (ustr '' [1] '') = Inr (ustr ''[1]'') \<and>
   strip (ustr '' [1] '') = ustr ''[1]'' \<and>
   ustr ''[] ACTION: READY_FOR_HUMAN_REVIEW'' = ustr ''[] '' @ ustr ''ACTION:'' @ ustr '' READY_FOR_HUMAN_REVIEW'' \<and>
   \<not> contains (ustr ''ACTION:'') (ustr ''[] '' @ butlast (ustr ''ACTION:'')) \<and>
   json_str (ustr ''[] ACTION: READY_FOR_HUMAN_REVIEW'') = Inr (ustr ''[]'') \<and>
   strip (ustr ''[] '') = ustr ''[]''"
proof -
  have n: "\<not> contains (ustr ''ACTION:'') (ustr '' [1] '')" by (simp add: eval_defs)
  have s1: "strip (ustr '' [1] '') = ustr ''[1]''" by (simp add: eval_defs)
  have e: "ustr ''[] ACTION: READY_FOR_HUMAN_REVIEW'' = ustr ''[] '' @ ustr ''ACTION:'' @ ustr '' READY_FOR_HUMAN_REVIEW''"
    by (simp add: ustr_def)
  have f: "\<not> contains (ustr ''ACTION:'') (ustr ''[] '' @ butlast (ustr ''ACTION:''))" by (simp add: eval_defs)
  have s2: "strip (ustr ''[] '') = ustr ''[]''" by (simp add: eval_defs)
  from json_str_before_ACTION [of "ustr '' [1] ''"] n s1
  have a: "json_str (ustr '' [1] '') = Inr (ustr ''[1]'')" by simp
  from json_str_before_ACTION [of "ustr ''[] ACTION: READY_FOR_HUMAN_REVIEW''"] e f s2
  have b: "json_str (ustr ''[] ACTION: READY_FOR_HUMAN_REVIEW'') = Inr (ustr ''[]'')"
    by (metis (no_types))
  from n a s1 e f b s2 show ?thesis by (intro conjI)
qed

section \<open>Properties of the Comment Applier\<close>

lemma invoke_returns: "svc tr cl = None \<Longrightarrow> invoke svc tr cl = (None, tr @ [(cl, None)])"
  by (simp add: invoke_def)

lemma invoke_raises: "svc tr cl = Some e \<Longrightarrow> invoke svc tr cl = (Some e, tr @ [(cl, Some e)])"
  by (simp add: invoke_def)

lemma entry_call_review:
  "entry_call rt commit c cl \<Longrightarrow> review_comment_call rt commit c = Inr cl"
  by (auto simp: entry_call_def review_comment_call_def py_getitem_def
           split: pyval.splits call.splits option.splits)

lemma entry_call_is_review: "entry_call rt commit c cl \<Longrightarrow> is_review_comment cl"
  by (auto simp: entry_call_def split: pyval.splits call.splits)

lemma post_comments_append:
  "post_comments rt svc commit (xs @ ys) tr =
     (case post_comments rt svc commit xs tr of
        (Some e, tr1) \<Rightarrow> (Some e, tr1)
      | (None, tr1) \<Rightarrow> post_comments rt svc commit ys tr1)"
proof (induction xs arbitrary: tr)
  case Nil
  show ?case by simp
next
  case (Cons x xs)
  show ?case
  proof (cases "review_comment_call rt commit x")
    case (Inl e)
    then show ?thesis by simp
  next
    case (Inr cl)
    show ?thesis
    proof (cases "svc tr cl")
      case None
      with Inr Cons.IH show ?thesis by (simp add: invoke_def)
    next
      case (Some e)
      with Inr show ?thesis by (simp add: invoke_def)
    qed
  qed
qed

lemma post_comments_returned:
  "list_all2 (entry_call rt commit) cs cls \<Longrightarrow> accepts svc tr cls \<Longrightarrow>
   post_comments rt svc commit cs tr = (None, tr @ returned cls)"
proof (induction cs cls arbitrary: tr rule: list_all2_induct)
  case Nil
  show ?case by (simp add: returned_def)
next
  case (Cons c cs cl cls)
  from Cons.hyps(1) have r: "review_comment_call rt commit c = Inr cl"
    by (rule entry_call_review)
  from Cons.prems have a: "svc tr cl = None" and b: "accepts svc (tr @ [(cl, None)]) cls"
    by simp_all
  from Cons.IH [OF b] r a show ?case
    by (simp add: invoke_def returned_def)
qed

lemma post_comments_raise_at_call:
  "review_comment_call rt commit c = Inr cl \<Longrightarrow> svc tr cl = Some e \<Longrightarrow>
   post_comments rt svc commit (c # cs) tr = (Some e, tr @ [(cl, Some e)])"
  by (simp add: invoke_def)

lemma post_comments_raise_at_entry:
  "review_comment_call rt commit c = Inl e \<Longrightarrow>
   post_comments rt svc commit (c # cs) tr = (Some e, tr)"
  by simp

lemma try_body_parsed:
  "json_str raw = Inr js \<Longrightarrow> json_loads rt js = Inr comments \<Longrightarrow> py_iter comments = Inr cs \<Longrightarrow>
   try_body rt svc reviewer raw commit =
     (case post_comments rt svc commit cs [] of
        (Some e, tr) \<Rightarrow> (Some e, tr)
      | (None, tr) \<Rightarrow>
          if contains (ustr ''READY_FOR_HUMAN_REVIEW'') raw then
            (case invoke svc tr (AddToAssignees reviewer) of
               (Some e, tr1) \<Rightarrow> (Some e, tr1)
             | (None, tr1) \<Rightarrow> invoke svc tr1 (CreateIssueComment (handoff_message reviewer)))
          else (None, tr))"
  by (simp add: try_body_def)

lemma try_body_not_parsed:
  "json_str raw = Inr js \<Longrightarrow> json_loads rt js = Inl e \<Longrightarrow>
   try_body rt svc reviewer raw commit = (Some e, [])"
  by (simp add: try_body_def)

lemma apply_on_raise:
  "try_body rt svc reviewer raw commit = (Some e, tr) \<Longrightarrow>
   apply_line_comments rt svc reviewer raw commit =
     \<lparr>calls = tr @ [(CreateIssueComment (error_message raw),
                     svc tr (CreateIssueComment (error_message raw)))],
      printed = [e],
      raised = svc tr (CreateIssueComment (error_message raw))\<rparr>"
  by (simp add: apply_line_comments_def invoke_def)

lemma apply_on_return:
  "try_body rt svc reviewer raw commit = (None, tr) \<Longrightarrow>
   apply_line_comments rt svc reviewer raw commit = \<lparr>calls = tr, printed = [], raised = None\<rparr>"
  by (simp add: apply_line_comments_def)

lemma filter_returned_review:
  "list_all2 (entry_call rt commit) cs cls \<Longrightarrow>
   filter is_review_comment (map fst (returned cls)) = cls"
proof (induction cs cls rule: list_all2_induct)
  case Nil
  show ?case by (simp add: returned_def)
next
  case (Cons c cs cl cls)
  then show ?case by (simp add: returned_def entry_call_is_review)
qed

lemma accepts_append:
  "accepts svc tr (xs @ ys) \<longleftrightarrow> accepts svc tr xs \<and> accepts svc (tr @ returned xs) ys"
  by (induction xs arbitrary: tr) (auto simp: returned_def)

lemma returned_append: "returned (xs @ ys) = returned xs @ returned ys"
  by (simp add: returned_def)

lemma one_finding_payload:
  "json_str one_finding = Inr (ustr ''[{\"path\":\"lib/a.dart\",\"line\":10,\"comment\":\"fix this\"}]'')"
  by (simp add: eval_defs)

lemma one_finding_parsed:
  "json_loads example_runtime (ustr ''[{\"path\":\"lib/a.dart\",\"line\":10,\"comment\":\"fix this\"}]'') =
     Inr (PList [PDict [(ustr ''path'', PStr (ustr ''lib/a.dart'')), (ustr ''line'', PInt 10),
                        (ustr ''comment'', PStr (ustr ''fix this''))]])"
  by (simp add: eval_defs)

lemma one_finding_entry:
  "list_all2 (entry_call example_runtime head_commit)
     [PDict [(ustr ''path'', PStr (ustr ''lib/a.dart'')), (ustr ''line'', PInt 10),
             (ustr ''comment'', PStr (ustr ''fix this''))]]
     [one_finding_call]"
  by (simp add: eval_defs)

lemma one_finding_marked: "contains (ustr ''READY_FOR_HUMAN_REVIEW'') one_finding"
  by (simp add: eval_defs)

text \<open>
  After the loop has posted every comment, whatever follows adds no line comment.
\<close>

lemma apply_after_posts:
  assumes "json_str raw = Inr js" and "json_loads rt js = Inr comments"
    and "py_iter comments = Inr cs" and "post_comments rt svc commit cs [] = (None, tr)"
  shows "\<exists>extra. calls (apply_line_comments rt svc reviewer raw commit) = tr @ extra \<and>
           filter is_review_comment (map fst extra) = []"
proof -
  let ?assign = "AddToAssignees reviewer"
  let ?handoff = "CreateIssueComment (handoff_message reviewer)"
  have body: "try_body rt svc reviewer raw commit =
      (if contains (ustr ''READY_FOR_HUMAN_REVIEW'') raw then
         (case invoke svc tr ?assign of
            (Some e, tr1) \<Rightarrow> (Some e, tr1)
          | (None, tr1) \<Rightarrow> invoke svc tr1 ?handoff)
       else (None, tr))"
    using assms by (simp add: try_body_parsed)
  show ?thesis
  proof (cases "contains (ustr ''READY_FOR_HUMAN_REVIEW'') raw")
    case False
    with body have "try_body rt svc reviewer raw commit = (None, tr)" by simp
    then have "calls (apply_line_comments rt svc reviewer raw commit) = tr @ []"
      by (simp add: apply_on_return)
    then show ?thesis by (intro exI [of _ "[]"]) simp
  next
    case True
    show ?thesis
    proof (cases "svc tr ?assign")
      case (Some e)
      with body True have "try_body rt svc reviewer raw commit = (Some e, tr @ [(?assign, Some e)])"
        by (simp add: invoke_def)
      then have "calls (apply_line_comments rt svc reviewer raw commit) =
          tr @ [(?assign, Some e), (CreateIssueComment (error_message raw),
             svc (tr @ [(?assign, Some e)]) (CreateIssueComment (error_message raw)))]"
        by (simp add: apply_on_raise)
      then show ?thesis by simp
    next
      case None
      show ?thesis
      proof (cases "svc (tr @ [(?assign, None)]) ?handoff")
        case h: None
        with body True None
        have "try_body rt svc reviewer raw commit = (None, tr @ [(?assign, None), (?handoff, None)])"
          by (simp add: invoke_def)
        then have "calls (apply_line_comments rt svc reviewer raw commit) =
            tr @ [(?assign, None), (?handoff, None)]"
          by (simp add: apply_on_return)
        then show ?thesis by simp
      next
        case h: (Some e)
        with body True None
        have "try_body rt svc reviewer raw commit =
            (Some e, tr @ [(?assign, None), (?handoff, Some e)])"
          by (simp add: invoke_def)
        then have "calls (apply_line_comments rt svc reviewer raw commit) =
            tr @ [(?assign, None), (?handoff, Some e), (CreateIssueComment (error_message raw),
               svc (tr @ [(?assign, None), (?handoff, Some e)]) (CreateIssueComment (error_message raw)))]"
          by (simp add: apply_on_raise)
        then show ?thesis by simp
      qed
    qed
  qed
qed

lemma entry_call_anchored:
  "entry_call rt commit c cl \<Longrightarrow> \<exists>body path n. cl = CreateReviewComment body commit path n"
  by (auto simp: entry_call_def split: pyval.splits call.splits)

lemma json_str_returns: "\<exists>js. json_str raw = Inr js"
proof (cases "find_sep (ustr ''ACTION:'') raw")
  case None
  then show ?thesis by (auto dest: json_str_absent)
next
  case (Some a)
  then show ?thesis by (cases a) (auto dest: json_str_found)
qed

lemma handoff_is_not_error_message: "handoff_message reviewer \<noteq> error_message raw"
proof
  assume "handoff_message reviewer = error_message raw"
  then have "take 11 (handoff_message reviewer) = take 11 (error_message raw)" by simp
  then show False by (simp add: handoff_message_def error_message_def ustr_def)
qed

lemma apply_not_parsed:
  assumes "json_str raw = Inr js" and "json_loads rt js = Inl e"
  shows "apply_line_comments rt svc reviewer raw commit =
     \<lparr>calls = [(CreateIssueComment (error_message raw), svc [] (CreateIssueComment (error_message raw)))],
      printed = [e],
      raised = svc [] (CreateIssueComment (error_message raw))\<rparr>"
  using apply_on_raise [OF try_body_not_parsed [OF assms]] by simp

lemma trailing_comma_payload:
  "json_str trailing_comma =
     Inr (ustr ''[{\"path\":\"lib/a.dart\",\"line\":10,\"comment\":\"fix this\"},]'')"
  by (simp add: eval_defs)

lemma trailing_comma_not_parsed:
  "json_loads example_runtime
     (ustr ''[{\"path\":\"lib/a.dart\",\"line\":10,\"comment\":\"fix this\"},]'') = Inl JSONDecodeError"
  by (simp add: eval_defs)

lemma trailing_comma_marked: "contains (ustr ''READY_FOR_HUMAN_REVIEW'') trailing_comma"
  by (simp add: eval_defs)

text \<open>
  Claim C1 as it is stated does not hold: the response \<open>trailing_comma\<close> contains the
  marker, its list ends with a comma that \<open>json.loads\<close> rejects, and the only call made
  is the fallback comment.
\<close>

theorem marker_without_assignment:
  "contains (ustr ''READY_FOR_HUMAN_REVIEW'') trailing_comma \<and>
   apply_line_comments example_runtime accept_all alice trailing_comma head_commit =
     \<lparr>calls = [(CreateIssueComment (error_message trailing_comma), None)],
      printed = [JSONDecodeError], raised = None\<rparr>"
  by (simp add: eval_defs)

lemma apply_raise_in_loop:
  assumes "json_str raw = Inr js" and "json_loads rt js = Inr comments"
    and "py_iter comments = Inr cs" and "post_comments rt svc commit cs [] = (Some e, tr)"
  shows "apply_line_comments rt svc reviewer raw commit =
     \<lparr>calls = tr @ [(CreateIssueComment (error_message raw),
                     svc tr (CreateIssueComment (error_message raw)))],
      printed = [e],
      raised = svc tr (CreateIssueComment (error_message raw))\<rparr>"
proof -
  from assms have "try_body rt svc reviewer raw commit = (Some e, tr)"
    by (simp add: try_body_parsed)
  then show ?thesis by (rule apply_on_raise)
qed

lemma post_comments_stops_at_call:
  assumes "list_all2 (entry_call rt commit) posted cls" and "accepts svc [] cls"
    and "review_comment_call rt commit c = Inr cl" and "svc (returned cls) cl = Some e"
  shows "post_comments rt svc commit (posted @ c # rest) [] =
           (Some e, returned cls @ [(cl, Some e)])"
proof -
  from assms(1,2) have "post_comments rt svc commit posted [] = (None, [] @ returned cls)"
    by (rule post_comments_returned)
  with assms(3,4) show ?thesis
    by (simp add: post_comments_append invoke_def)
qed

lemma post_comments_stops_at_entry:
  assumes "list_all2 (entry_call rt commit) posted cls" and "accepts svc [] cls"
    and "review_comment_call rt commit c = Inl e"
  shows "post_comments rt svc commit (posted @ c # rest) [] = (Some e, returned cls)"
proof -
  from assms(1,2) have "post_comments rt svc commit posted [] = (None, [] @ returned cls)"
    by (rule post_comments_returned)
  with assms(3) show ?thesis
    by (simp add: post_comments_append)
qed

text \<open>
  Claim C2. When \<open>json.loads\<close> raises on the payload, no line comment is posted, and when
  a line-comment call raises, the loop stops there, the comments posted before it staying
  as they are. In both cases the next and last call is one issue comment whose body is
  \<open>AI Review Error: \<close> followed by the whole raw response, and the exception is the
  one reported by \<open>print\<close>.
\<close>

theorem fallback_comment_on_error:
  "(json_str raw = Inr js \<and> json_loads rt js = Inl e \<longrightarrow>
      apply_line_comments rt svc reviewer raw commit =
        \<lparr>calls = [(CreateIssueComment (error_message raw),
                   svc [] (CreateIssueComment (error_message raw)))],
         printed = [e],
         raised = svc [] (CreateIssueComment (error_message raw))\<rparr>) \<and>
   (json_str raw = Inr js \<and> json_loads rt js = Inr comments \<and>
    py_iter comments = Inr (posted @ c # rest) \<and>
    list_all2 (entry_call rt commit) posted cls \<and> accepts svc [] cls \<and>
    review_comment_call rt commit c = Inr cl \<and> svc (returned cls) cl = Some e \<longrightarrow>
      apply_line_comments rt svc reviewer raw commit =
        \<lparr>calls = returned cls @ [(cl, Some e)] @
                 [(CreateIssueComment (error_message raw),
                   svc (returned cls @ [(cl, Some e)]) (CreateIssueComment (error_message raw)))],
         printed = [e],
         raised = svc (returned cls @ [(cl, Some e)]) (CreateIssueComment (error_message raw))\<rparr>) \<and>
   error_message raw = ustr ''AI Review Error: '' @ raw"
proof (intro conjI impI)
  assume "json_str raw = Inr js \<and> json_loads rt js = Inl e"
  then show "apply_line_comments rt svc reviewer raw commit =
        \<lparr>calls = [(CreateIssueComment (error_message raw),
                   svc [] (CreateIssueComment (error_message raw)))],
         printed = [e],
         raised = svc [] (CreateIssueComment (error_message raw))\<rparr>"
    by (simp add: apply_not_parsed)
next
  assume h: "json_str raw = Inr js \<and> json_loads rt js = Inr comments \<and>
    py_iter comments = Inr (posted @ c # rest) \<and>
    list_all2 (entry_call rt commit) posted cls \<and> accepts svc [] cls \<and>
    review_comment_call rt commit c = Inr cl \<and> svc (returned cls) cl = Some e"
  then have s: "json_str raw = Inr js" and p: "json_loads rt js = Inr comments"
    and i: "py_iter comments = Inr (posted @ c # rest)"
    and l: "list_all2 (entry_call rt commit) posted cls" and a: "accepts svc [] cls"
    and r: "review_comment_call rt commit c = Inr cl" and x: "svc (returned cls) cl = Some e"
    by simp_all
  from l a r x have "post_comments rt svc commit (posted @ c # rest) [] =
           (Some e, returned cls @ [(cl, Some e)])"
    by (rule post_comments_stops_at_call)
  with s p i have "apply_line_comments rt svc reviewer raw commit =
     \<lparr>calls = (returned cls @ [(cl, Some e)]) @ [(CreateIssueComment (error_message raw),
                     svc (returned cls @ [(cl, Some e)]) (CreateIssueComment (error_message raw)))],
      printed = [e],
      raised = svc (returned cls @ [(cl, Some e)]) (CreateIssueComment (error_message raw))\<rparr>"
    by (rule apply_raise_in_loop)
  then show "apply_line_comments rt svc reviewer raw commit =
        \<lparr>calls = returned cls @ [(cl, Some e)] @
                 [(CreateIssueComment (error_message raw),
                   svc (returned cls @ [(cl, Some e)]) (CreateIssueComment (error_message raw)))],
         printed = [e],
         raised = svc (returned cls @ [(cl, Some e)]) (CreateIssueComment (error_message raw))\<rparr>"
    by simp
next
  show "error_message raw = ustr ''AI Review Error: '' @ raw"
    by (simp add: error_message_def)
qed

lemma two_findings_payload:
  "json_str two_findings =
     Inr (ustr ''[{\"path\":\"lib/a.dart\",\"line\":10,\"comment\":\"fix this\"}, {\"path\":\"lib/b.dart\",\"line\":\"20\",\"comment\":\"rename\"}]'')"
  by (simp add: eval_defs)

lemma two_findings_parsed:
  "json_loads example_runtime
     (ustr ''[{\"path\":\"lib/a.dart\",\"line\":10,\"comment\":\"fix this\"}, {\"path\":\"lib/b.dart\",\"line\":\"20\",\"comment\":\"rename\"}]'') =
     Inr (PList [PDict [(ustr ''path'', PStr (ustr ''lib/a.dart'')), (ustr ''line'', PInt 10),
                        (ustr ''comment'', PStr (ustr ''fix this''))],
                 PDict [(ustr ''path'', PStr (ustr ''lib/b.dart'')), (ustr ''line'', PStr (ustr ''20'')),
                        (ustr ''comment'', PStr (ustr ''rename''))]])"
  by (simp add: eval_defs)

lemma two_findings_second_call:
  "review_comment_call example_runtime head_commit
     (PDict [(ustr ''path'', PStr (ustr ''lib/b.dart'')), (ustr ''line'', PStr (ustr ''20'')),
             (ustr ''comment'', PStr (ustr ''rename''))]) = Inr two_findings_call"
  by (simp add: eval_defs)

theorem fallback_comment_on_error_witness:
  "json_str trailing_comma =
     Inr (ustr ''[{\"path\":\"lib/a.dart\",\"line\":10,\"comment\":\"fix this\"},]'') \<and>
   json_loads example_runtime
     (ustr ''[{\"path\":\"lib/a.dart\",\"line\":10,\"comment\":\"fix this\"},]'') = Inl JSONDecodeError \<and>
   apply_line_comments example_runtime accept_all alice trailing_comma head_commit =
     \<lparr>calls = [(CreateIssueComment (ustr ''AI Review Error: '' @ trailing_comma), None)],
      printed = [JSONDecodeError], raised = None\<rparr> \<and>
   accepts refuse_after_first [] [one_finding_call] \<and>
   refuse_after_first (returned [one_finding_call]) two_findings_call = Some (ExternalError 422) \<and>
   apply_line_comments example_runtime refuse_after_first alice two_findings head_commit =
     \<lparr>calls = [(one_finding_call, None), (two_findings_call, Some (ExternalError 422)),
               (CreateIssueComment (ustr ''AI Review Error: '' @ two_findings), None)],
      printed = [ExternalError 422], raised = None\<rparr>"
proof -
  have acc: "accepts refuse_after_first [] [one_finding_call]"
    by (simp add: refuse_after_first_def)
  have ref: "refuse_after_first (returned [one_finding_call]) two_findings_call = Some (ExternalError 422)"
    by (simp add: refuse_after_first_def returned_def two_findings_call_def)
  have it: "py_iter (PList [PDict [(ustr ''path'', PStr (ustr ''lib/a.dart'')), (ustr ''line'', PInt 10),
                        (ustr ''comment'', PStr (ustr ''fix this''))],
                 PDict [(ustr ''path'', PStr (ustr ''lib/b.dart'')), (ustr ''line'', PStr (ustr ''20'')),
                        (ustr ''comment'', PStr (ustr ''rename''))]]) =
      Inr ([PDict [(ustr ''path'', PStr (ustr ''lib/a.dart'')), (ustr ''line'', PInt 10),
                        (ustr ''comment'', PStr (ustr ''fix this''))]] @
           PDict [(ustr ''path'', PStr (ustr ''lib/b.dart'')), (ustr ''line'', PStr (ustr ''20'')),
                        (ustr ''comment'', PStr (ustr ''rename''))] # [])"
    by (simp add: py_iter_def)
  from fallback_comment_on_error [of trailing_comma _ example_runtime JSONDecodeError accept_all alice head_commit]
    trailing_comma_payload trailing_comma_not_parsed
  have a: "apply_line_comments example_runtime accept_all alice trailing_comma head_commit =
     \<lparr>calls = [(CreateIssueComment (ustr ''AI Review Error: '' @ trailing_comma), None)],
      printed = [JSONDecodeError], raised = None\<rparr>"
    by (simp add: accept_all_def error_message_def)
  from fallback_comment_on_error [of two_findings _ example_runtime "ExternalError 422"
      refuse_after_first alice head_commit _ _ _ _ "[one_finding_call]" two_findings_call]
    two_findings_payload two_findings_parsed it one_finding_entry acc two_findings_second_call ref
  have "apply_line_comments example_runtime refuse_after_first alice two_findings head_commit =
        \<lparr>calls = returned [one_finding_call] @ [(two_findings_call, Some (ExternalError 422))] @
                 [(CreateIssueComment (error_message two_findings),
                   refuse_after_first (returned [one_finding_call] @ [(two_findings_call, Some (ExternalError 422))])
                     (CreateIssueComment (error_message two_findings)))],
         printed = [ExternalError 422],
         raised = refuse_after_first (returned [one_finding_call] @ [(two_findings_call, Some (ExternalError 422))])
                     (CreateIssueComment (error_message two_findings))\<rparr>"
    by blast
  then have b: "apply_line_comments example_runtime refuse_after_first alice two_findings head_commit =
     \<lparr>calls = [(one_finding_call, None), (two_findings_call, Some (ExternalError 422)),
               (CreateIssueComment (ustr ''AI Review Error: '' @ two_findings), None)],
      printed = [ExternalError 422], raised = None\<rparr>"
    by (simp add: refuse_after_first_def returned_def error_message_def)
  from trailing_comma_payload trailing_comma_not_parsed a acc ref b show ?thesis
    by (intro conjI)
qed

text \<open>
  Claim C10. The assignment and the handoff comment are made inside the same \<open>try\<close>
  statement: when either raises after every line comment has been posted, the posted
  comments stay in the trace, the raw response is posted as an \<open>AI Review Error\<close> issue
  comment, and the exception is the one reported by \<open>print\<close>.
\<close>

theorem assignment_error_falls_back:
  assumes "json_str raw = Inr js"
    and "json_loads rt js = Inr comments"
    and "py_iter comments = Inr entries"
    and "list_all2 (entry_call rt commit) entries cls"
    and "accepts svc [] cls"
    and "contains (ustr ''READY_FOR_HUMAN_REVIEW'') raw"
  shows "(svc (returned cls) (AddToAssignees reviewer) = Some e \<longrightarrow>
          apply_line_comments rt svc reviewer raw commit =
            \<lparr>calls = returned cls @
                 [(AddToAssignees reviewer, Some e),
                  (CreateIssueComment (error_message raw),
                   svc (returned cls @ [(AddToAssignees reviewer, Some e)])
                     (CreateIssueComment (error_message raw)))],
             printed = [e],
             raised = svc (returned cls @ [(AddToAssignees reviewer, Some e)])
                        (CreateIssueComment (error_message raw))\<rparr>) \<and>
         (svc (returned cls) (AddToAssignees reviewer) = None \<and>
          svc (returned cls @ [(AddToAssignees reviewer, None)])
            (CreateIssueComment (handoff_message reviewer)) = Some e \<longrightarrow>
          apply_line_comments rt svc reviewer raw commit =
            \<lparr>calls = returned cls @
                 [(AddToAssignees reviewer, None),
                  (CreateIssueComment (handoff_message reviewer), Some e),
                  (CreateIssueComment (error_message raw),
                   svc (returned cls @ [(AddToAssignees reviewer, None),
                                        (CreateIssueComment (handoff_message reviewer), Some e)])
                     (CreateIssueComment (error_message raw)))],
             printed = [e],
             raised = svc (returned cls @ [(AddToAssignees reviewer, None),
                                           (CreateIssueComment (handoff_message reviewer), Some e)])
                        (CreateIssueComment (error_message raw))\<rparr>)"
proof -
  let ?assign = "AddToAssignees reviewer"
  let ?handoff = "CreateIssueComment (handoff_message reviewer)"
  from assms(4,5) have "post_comments rt svc commit entries [] = (None, [] @ returned cls)"
    by (rule post_comments_returned)
  then have posts: "post_comments rt svc commit entries [] = (None, returned cls)" by simp
  have body: "try_body rt svc reviewer raw commit =
      (case invoke svc (returned cls) ?assign of
         (Some e, tr1) \<Rightarrow> (Some e, tr1)
       | (None, tr1) \<Rightarrow> invoke svc tr1 ?handoff)"
    using posts assms(6) by (simp add: try_body_parsed [OF assms(1-3)])
  show ?thesis
  proof (intro conjI impI)
    assume "svc (returned cls) ?assign = Some e"
    with body have "try_body rt svc reviewer raw commit =
        (Some e, returned cls @ [(?assign, Some e)])"
      by (simp add: invoke_def)
    then show "apply_line_comments rt svc reviewer raw commit =
            \<lparr>calls = returned cls @
                 [(?assign, Some e),
                  (CreateIssueComment (error_message raw),
                   svc (returned cls @ [(?assign, Some e)]) (CreateIssueComment (error_message raw)))],
             printed = [e],
             raised = svc (returned cls @ [(?assign, Some e)])
                        (CreateIssueComment (error_message raw))\<rparr>"
      by (simp add: apply_on_raise)
  next
    assume "svc (returned cls) ?assign = None \<and>
          svc (returned cls @ [(?assign, None)]) ?handoff = Some e"
    with body have "try_body rt svc reviewer raw commit =
        (Some e, returned cls @ [(?assign, None), (?handoff, Some e)])"
      by (simp add: invoke_def)
    then show "apply_line_comments rt svc reviewer raw commit =
            \<lparr>calls = returned cls @
                 [(?assign, None), (?handoff, Some e),
                  (CreateIssueComment (error_message raw),
                   svc (returned cls @ [(?assign, None), (?handoff, Some e)])
                     (CreateIssueComment (error_message raw)))],
             printed = [e],
             raised = svc (returned cls @ [(?assign, None), (?handoff, Some e)])
                        (CreateIssueComment (error_message raw))\<rparr>"
      by (simp add: apply_on_raise)
  qed
qed

lemma one_finding_iter:
  "py_iter (PList [PDict [(ustr ''path'', PStr (ustr ''lib/a.dart'')), (ustr ''line'', PInt 10),
                        (ustr ''comment'', PStr (ustr ''fix this''))]]) =
      Inr [PDict [(ustr ''path'', PStr (ustr ''lib/a.dart'')), (ustr ''line'', PInt 10),
                        (ustr ''comment'', PStr (ustr ''fix this''))]]"
  by (simp add: py_iter_def)

theorem assignment_error_falls_back_witness:
  "contains (ustr ''READY_FOR_HUMAN_REVIEW'') one_finding \<and>
   accepts refuse_assignment [] [one_finding_call] \<and>
   refuse_assignment (returned [one_finding_call]) (AddToAssignees alice) = Some (ExternalError 422) \<and>
   apply_line_comments example_runtime refuse_assignment alice one_finding head_commit =
     \<lparr>calls = [(one_finding_call, None), (AddToAssignees alice, Some (ExternalError 422)),
               (CreateIssueComment (ustr ''AI Review Error: '' @ one_finding), None)],
      printed = [ExternalError 422], raised = None\<rparr> \<and>
   accepts refuse_handoff [] [one_finding_call] \<and>
   refuse_handoff (returned [one_finding_call]) (AddToAssignees alice) = None \<and>
   refuse_handoff (returned [one_finding_call] @ [(AddToAssignees alice, None)])
     (CreateIssueComment (handoff_message alice)) = Some (ExternalError 422) \<and>
   apply_line_comments example_runtime refuse_handoff alice one_finding head_commit =
     \<lparr>calls = [(one_finding_call, None), (AddToAssignees alice, None),
               (CreateIssueComment (handoff_message alice), Some (ExternalError 422)),
               (CreateIssueComment (ustr ''AI Review Error: '' @ one_finding), None)],
      printed = [ExternalError 422], raised = None\<rparr>"
proof -
  have a1: "accepts refuse_assignment [] [one_finding_call]"
    by (simp add: refuse_assignment_def one_finding_call_def)
  have r1: "refuse_assignment (returned [one_finding_call]) (AddToAssignees alice) = Some (ExternalError 422)"
    by (simp add: refuse_assignment_def)
  have a2: "accepts refuse_handoff [] [one_finding_call]"
    by (simp add: refuse_handoff_def one_finding_call_def)
  have r2: "refuse_handoff (returned [one_finding_call]) (AddToAssignees alice) = None"
    by (simp add: refuse_handoff_def)
  have r3: "refuse_handoff (returned [one_finding_call] @ [(AddToAssignees alice, None)])
     (CreateIssueComment (handoff_message alice)) = Some (ExternalError 422)"
    by (simp add: refuse_handoff_def)
  have ne: "error_message one_finding \<noteq> handoff_message alice"
    using handoff_is_not_error_message [of alice one_finding] by simp
  from assignment_error_falls_back [OF one_finding_payload one_finding_parsed one_finding_iter
      one_finding_entry a1 one_finding_marked, of alice "ExternalError 422"] r1
  have "apply_line_comments example_runtime refuse_assignment alice one_finding head_commit =
            \<lparr>calls = returned [one_finding_call] @
                 [(AddToAssignees alice, Some (ExternalError 422)),
                  (CreateIssueComment (error_message one_finding),
                   refuse_assignment (returned [one_finding_call] @ [(AddToAssignees alice, Some (ExternalError 422))])
                     (CreateIssueComment (error_message one_finding)))],
             printed = [ExternalError 422],
             raised = refuse_assignment (returned [one_finding_call] @ [(AddToAssignees alice, Some (ExternalError 422))])
                        (CreateIssueComment (error_message one_finding))\<rparr>"
    by blast
  then have x: "apply_line_comments example_runtime refuse_assignment alice one_finding head_commit =
     \<lparr>calls = [(one_finding_call, None), (AddToAssignees alice, Some (ExternalError 422)),
               (CreateIssueComment (ustr ''AI Review Error: '' @ one_finding), None)],
      printed = [ExternalError 422], raised = None\<rparr>"
    by (simp add: refuse_assignment_def returned_def error_message_def)
  from assignment_error_falls_back [OF one_finding_payload one_finding_parsed one_finding_iter
      one_finding_entry a2 one_finding_marked, of alice "ExternalError 422"] r2 r3
  have "apply_line_comments example_runtime refuse_handoff alice one_finding head_commit =
            \<lparr>calls = returned [one_finding_call] @
                 [(AddToAssignees alice, None),
                  (CreateIssueComment (handoff_message alice), Some (ExternalError 422)),
                  (CreateIssueComment (error_message one_finding),
                   refuse_handoff (returned [one_finding_call] @ [(AddToAssignees alice, None),
                                        (CreateIssueComment (handoff_message alice), Some (ExternalError 422))])
                     (CreateIssueComment (error_message one_finding)))],
             printed = [ExternalError 422],
             raised = refuse_handoff (returned [one_finding_call] @ [(AddToAssignees alice, None),
                                           (CreateIssueComment (handoff_message alice), Some (ExternalError 422))])
                        (CreateIssueComment (error_message one_finding))\<rparr>"
    by blast
  then have y: "apply_line_comments example_runtime refuse_handoff alice one_finding head_commit =
     \<lparr>calls = [(one_finding_call, None), (AddToAssignees alice, None),
               (CreateIssueComment (handoff_message alice), Some (ExternalError 422)),
               (CreateIssueComment (ustr ''AI Review Error: '' @ one_finding), None)],
      printed = [ExternalError 422], raised = None\<rparr>"
    using ne by (simp add: refuse_handoff_def returned_def) (simp add: error_message_def)
  from one_finding_marked a1 r1 x a2 r2 r3 y show ?thesis by (intro conjI)
qed

lemma digits_to_ascii: "list_all is_digit ds \<Longrightarrow> map (to_ascii rt) ds = ds"
  by (induction ds) (auto simp: is_digit_def to_ascii_def)

lemma digits_no_double_underscore: "list_all is_digit ds \<Longrightarrow> \<not> double_underscore ds"
  by (induction ds rule: double_underscore.induct) (auto simp: is_digit_def)

lemma digits_takeWhile:
  "list_all is_digit ds \<Longrightarrow> takeWhile digit_or_underscore ds = ds"
  by (induction ds) (auto simp: digit_or_underscore_def)

lemma digits_dropWhile:
  "list_all is_digit ds \<Longrightarrow> dropWhile digit_or_underscore ds = []"
  by (induction ds) (auto simp: digit_or_underscore_def)

lemma digits_filter: "list_all is_digit ds \<Longrightarrow> filter is_digit ds = ds"
  by (induction ds) auto

lemma digits_last: "ds \<noteq> [] \<Longrightarrow> list_all is_digit ds \<Longrightarrow> is_digit (last ds)"
  by (induction ds) (auto split: if_splits)

text \<open>\<open>int\<close> accepts a string of decimal digits and returns the number it writes.\<close>

lemma int_of_str_digits:
  assumes "ds \<noteq> []" and "list_all is_digit ds" and "\<not> over_limit rt (length ds)"
  shows "int_of_str rt ds = Inr (int (decimal ds))"
proof -
  from assms(1) obtain c cs where ds: "ds = c # cs" by (cases ds) auto
  with assms(2) have c: "is_digit c" by simp
  then have nsp: "\<not> ascii_space c" and nsign: "c \<noteq> 43" "c \<noteq> 45" and nus: "c \<noteq> 95"
    by (auto simp: is_digit_def ascii_space_def)
  have b: "dropWhile ascii_space (map (to_ascii rt) ds) = ds"
    using digits_to_ascii [OF assms(2)] ds nsp by simp
  have l: "last ds \<noteq> 95"
    using digits_last [OF assms(1,2)] by (auto simp: is_digit_def)
  show ?thesis
    unfolding int_of_str_def b
    using assms(3) nsign nus l digits_no_double_underscore [OF assms(2)]
      digits_takeWhile [OF assms(2)] digits_dropWhile [OF assms(2)] digits_filter [OF assms(2)]
    by (simp add: ds Let_def)
qed

text \<open>
  Claim C9. The line of an entry goes through \<open>int\<close>: an entry whose line is a string of
  decimal digits (no longer than the interpreter's limit for such conversions) is posted
  at the number the digits write, and an entry whose line \<open>int\<close> cannot convert makes
  the run post the fallback comment instead of that entry and of those after it.
\<close>

theorem line_is_coerced_by_int:
  "(ds \<noteq> [] \<and> list_all is_digit ds \<and> \<not> over_limit rt (length ds) \<and>
    map_of d (ustr ''comment'') = Some body \<and> map_of d (ustr ''path'') = Some path \<and>
    map_of d (ustr ''line'') = Some (PStr ds) \<longrightarrow>
      review_comment_call rt commit (PDict d) =
        Inr (CreateReviewComment body commit path (int (decimal ds))) \<and>
      entry_call rt commit (PDict d) (CreateReviewComment body commit path (int (decimal ds)))) \<and>
   (json_str raw = Inr js \<and> json_loads rt js = Inr comments \<and>
    py_iter comments = Inr (posted @ PDict d # rest) \<and>
    list_all2 (entry_call rt commit) posted cls \<and> accepts svc [] cls \<and>
    map_of d (ustr ''comment'') = Some body \<and> map_of d (ustr ''path'') = Some path \<and>
    map_of d (ustr ''line'') = Some l \<and> py_int rt l = Inl e \<longrightarrow>
      apply_line_comments rt svc reviewer raw commit =
        \<lparr>calls = returned cls @
                 [(CreateIssueComment (error_message raw),
                   svc (returned cls) (CreateIssueComment (error_message raw)))],
         printed = [e],
         raised = svc (returned cls) (CreateIssueComment (error_message raw))\<rparr>)"
proof (intro conjI impI)
  assume h: "ds \<noteq> [] \<and> list_all is_digit ds \<and> \<not> over_limit rt (length ds) \<and>
    map_of d (ustr ''comment'') = Some body \<and> map_of d (ustr ''path'') = Some path \<and>
    map_of d (ustr ''line'') = Some (PStr ds)"
  then have i: "py_int rt (PStr ds) = Inr (int (decimal ds))"
    by (simp add: py_int_def int_of_str_digits)
  with h show "review_comment_call rt commit (PDict d) =
        Inr (CreateReviewComment body commit path (int (decimal ds)))"
    by (simp add: review_comment_call_def py_getitem_def)
  from h i show "entry_call rt commit (PDict d)
        (CreateReviewComment body commit path (int (decimal ds)))"
    by (simp add: entry_call_def)
next
  assume h: "json_str raw = Inr js \<and> json_loads rt js = Inr comments \<and>
    py_iter comments = Inr (posted @ PDict d # rest) \<and>
    list_all2 (entry_call rt commit) posted cls \<and> accepts svc [] cls \<and>
    map_of d (ustr ''comment'') = Some body \<and> map_of d (ustr ''path'') = Some path \<and>
    map_of d (ustr ''line'') = Some l \<and> py_int rt l = Inl e"
  then have s: "json_str raw = Inr js" and p: "json_loads rt js = Inr comments"
    and i: "py_iter comments = Inr (posted @ PDict d # rest)"
    and l: "list_all2 (entry_call rt commit) posted cls" and a: "accepts svc [] cls"
    by simp_all
  from h have r: "review_comment_call rt commit (PDict d) = Inl e"
    by (simp add: review_comment_call_def py_getitem_def)
  from l a r have "post_comments rt svc commit (posted @ PDict d # rest) [] = (Some e, returned cls)"
    by (rule post_comments_stops_at_entry)
  with s p i show "apply_line_comments rt svc reviewer raw commit =
        \<lparr>calls = returned cls @
                 [(CreateIssueComment (error_message raw),
                   svc (returned cls) (CreateIssueComment (error_message raw)))],
         printed = [e],
         raised = svc (returned cls) (CreateIssueComment (error_message raw))\<rparr>"
    by (rule apply_raise_in_loop)
qed

lemma bad_line_payload:
  "json_str bad_line = Inr (ustr ''[{\"path\":\"lib/a.dart\",\"line\":\"ten\",\"comment\":\"fix this\"}]'')"
  by (simp add: eval_defs)

lemma bad_line_parsed:
  "json_loads example_runtime
     (ustr ''[{\"path\":\"lib/a.dart\",\"line\":\"ten\",\"comment\":\"fix this\"}]'') =
     Inr (PList [PDict [(ustr ''path'', PStr (ustr ''lib/a.dart'')), (ustr ''line'', PStr (ustr ''ten'')),
                        (ustr ''comment'', PStr (ustr ''fix this''))]])"
  by (simp add: eval_defs)

theorem line_is_coerced_by_int_witness:
  "ustr ''20'' \<noteq> [] \<and> list_all is_digit (ustr ''20'') \<and>
   \<not> over_limit example_runtime (length (ustr ''20'')) \<and>
   review_comment_call example_runtime head_commit
     (PDict [(ustr ''path'', PStr (ustr ''lib/b.dart'')), (ustr ''line'', PStr (ustr ''20'')),
             (ustr ''comment'', PStr (ustr ''rename''))]) =
     Inr (CreateReviewComment (PStr (ustr ''rename'')) head_commit (PStr (ustr ''lib/b.dart'')) 20) \<and>
   py_int example_runtime (PStr (ustr ''ten'')) = Inl ValueError \<and>
   apply_line_comments example_runtime accept_all alice bad_line head_commit =
     \<lparr>calls = [(CreateIssueComment (ustr ''AI Review Error: '' @ bad_line), None)],
      printed = [ValueError], raised = None\<rparr>"
proof -
  have d1: "ustr ''20'' \<noteq> []" and d2: "list_all is_digit (ustr ''20'')"
    and d3: "\<not> over_limit example_runtime (length (ustr ''20''))"
    by (simp_all add: eval_defs)
  have v: "int (decimal (ustr ''20'')) = 20" by (simp add: eval_defs)
  have m: "map_of [(ustr ''path'', PStr (ustr ''lib/b.dart'')), (ustr ''line'', PStr (ustr ''20'')),
             (ustr ''comment'', PStr (ustr ''rename''))] (ustr ''comment'') = Some (PStr (ustr ''rename''))"
    "map_of [(ustr ''path'', PStr (ustr ''lib/b.dart'')), (ustr ''line'', PStr (ustr ''20'')),
             (ustr ''comment'', PStr (ustr ''rename''))] (ustr ''path'') = Some (PStr (ustr ''lib/b.dart''))"
    "map_of [(ustr ''path'', PStr (ustr ''lib/b.dart'')), (ustr ''line'', PStr (ustr ''20'')),
             (ustr ''comment'', PStr (ustr ''rename''))] (ustr ''line'') = Some (PStr (ustr ''20''))"
    by (simp_all add: ustr_def)
  from line_is_coerced_by_int [of "ustr ''20''" example_runtime
      "[(ustr ''path'', PStr (ustr ''lib/b.dart'')), (ustr ''line'', PStr (ustr ''20'')),
             (ustr ''comment'', PStr (ustr ''rename''))]"
      "PStr (ustr ''rename'')" "PStr (ustr ''lib/b.dart'')" head_commit] d1 d2 d3 m
  have "review_comment_call example_runtime head_commit
     (PDict [(ustr ''path'', PStr (ustr ''lib/b.dart'')), (ustr ''line'', PStr (ustr ''20'')),
             (ustr ''comment'', PStr (ustr ''rename''))]) =
     Inr (CreateReviewComment (PStr (ustr ''rename'')) head_commit (PStr (ustr ''lib/b.dart''))
            (int (decimal (ustr ''20''))))"
    by blast
  with v have a: "review_comment_call example_runtime head_commit
     (PDict [(ustr ''path'', PStr (ustr ''lib/b.dart'')), (ustr ''line'', PStr (ustr ''20'')),
             (ustr ''comment'', PStr (ustr ''rename''))]) =
     Inr (CreateReviewComment (PStr (ustr ''rename'')) head_commit (PStr (ustr ''lib/b.dart'')) 20)"
    by simp
  have e: "py_int example_runtime (PStr (ustr ''ten'')) = Inl ValueError"
    by (simp add: eval_defs)
  have it: "py_iter (PList [PDict [(ustr ''path'', PStr (ustr ''lib/a.dart'')), (ustr ''line'', PStr (ustr ''ten'')),
                        (ustr ''comment'', PStr (ustr ''fix this''))]]) =
      Inr ([] @ PDict [(ustr ''path'', PStr (ustr ''lib/a.dart'')), (ustr ''line'', PStr (ustr ''ten'')),
                        (ustr ''comment'', PStr (ustr ''fix this''))] # [])"
    by (simp add: py_iter_def)
  have n: "map_of [(ustr ''path'', PStr (ustr ''lib/a.dart'')), (ustr ''line'', PStr (ustr ''ten'')),
                        (ustr ''comment'', PStr (ustr ''fix this''))] (ustr ''comment'') = Some (PStr (ustr ''fix this''))"
    "map_of [(ustr ''path'', PStr (ustr ''lib/a.dart'')), (ustr ''line'', PStr (ustr ''ten'')),
                        (ustr ''comment'', PStr (ustr ''fix this''))] (ustr ''path'') = Some (PStr (ustr ''lib/a.dart''))"
    "map_of [(ustr ''path'', PStr (ustr ''lib/a.dart'')), (ustr ''line'', PStr (ustr ''ten'')),
                        (ustr ''comment'', PStr (ustr ''fix this''))] (ustr ''line'') = Some (PStr (ustr ''ten''))"
    by (simp_all add: ustr_def)
  have l0: "list_all2 (entry_call example_runtime head_commit) [] []" by simp
  have a0: "accepts accept_all [] []" by simp
  from line_is_coerced_by_int [of _ example_runtime
      "[(ustr ''path'', PStr (ustr ''lib/a.dart'')), (ustr ''line'', PStr (ustr ''ten'')),
                        (ustr ''comment'', PStr (ustr ''fix this''))]"
      "PStr (ustr ''fix this'')" "PStr (ustr ''lib/a.dart'')" head_commit bad_line _ _ "[]" "[]" "[]"
      accept_all "PStr (ustr ''ten'')" ValueError alice]
    bad_line_payload bad_line_parsed it n e l0 a0
  have "apply_line_comments example_runtime accept_all alice bad_line head_commit =
        \<lparr>calls = returned [] @
                 [(CreateIssueComment (error_message bad_line),
                   accept_all (returned []) (CreateIssueComment (error_message bad_line)))],
         printed = [ValueError],
         raised = accept_all (returned []) (CreateIssueComment (error_message bad_line))\<rparr>"
    by blast
  then have b: "apply_line_comments example_runtime accept_all alice bad_line head_commit =
     \<lparr>calls = [(CreateIssueComment (ustr ''AI Review Error: '' @ bad_line), None)],
      printed = [ValueError], raised = None\<rparr>"
    by (simp add: accept_all_def returned_def error_message_def)
  from d1 d2 d3 a e b show ?thesis by (intro conjI)
qed

text \<open>
  Claim C8. The payload ends where \<open>ACTION:\<close> first occurs, also when that occurrence
  lies inside the JSON text: \<open>json.loads\<close> is given the text before it, stripped, and
  when it raises on that text the run posts the fallback comment alone; when it returns,
  the line comments are those of the entries it read from that text.
\<close>

theorem payload_cut_at_first_ACTION:
  assumes "raw = pre @ ustr ''ACTION:'' @ rest"
    and "\<not> contains (ustr ''ACTION:'') (pre @ butlast (ustr ''ACTION:''))"
  shows "json_str raw = Inr (strip pre) \<and>
         (json_loads rt (strip pre) = Inl e \<longrightarrow>
            try_body rt svc reviewer raw commit = (Some e, []) \<and>
            apply_line_comments rt svc reviewer raw commit =
              \<lparr>calls = [(CreateIssueComment (error_message raw),
                         svc [] (CreateIssueComment (error_message raw)))],
               printed = [e],
               raised = svc [] (CreateIssueComment (error_message raw))\<rparr>) \<and>
         (json_loads rt (strip pre) = Inr comments \<and> py_iter comments = Inr cs \<longrightarrow>
            prefix (snd (post_comments rt svc commit cs []))
              (snd (try_body rt svc reviewer raw commit)))"
proof -
  from assms have "find_sep (ustr ''ACTION:'') raw = Some (pre, rest)"
    using find_sep_first [OF ustr_ACTION_nonempty, of pre rest] by simp
  then have s: "json_str raw = Inr (strip pre)" by (rule json_str_found)
  show ?thesis
  proof (intro conjI impI)
    show "json_str raw = Inr (strip pre)" by (rule s)
  next
    assume f: "json_loads rt (strip pre) = Inl e"
    from s f show "try_body rt svc reviewer raw commit = (Some e, [])"
      by (rule try_body_not_parsed)
    from s f show "apply_line_comments rt svc reviewer raw commit =
              \<lparr>calls = [(CreateIssueComment (error_message raw),
                         svc [] (CreateIssueComment (error_message raw)))],
               printed = [e],
               raised = svc [] (CreateIssueComment (error_message raw))\<rparr>"
      by (rule apply_not_parsed)
  next
    assume "json_loads rt (strip pre) = Inr comments \<and> py_iter comments = Inr cs"
    then have p: "json_loads rt (strip pre) = Inr comments" and i: "py_iter comments = Inr cs"
      by simp_all
    show "prefix (snd (post_comments rt svc commit cs []))
              (snd (try_body rt svc reviewer raw commit))"
      by (cases "post_comments rt svc commit cs []")
         (auto simp: try_body_parsed [OF s p i] invoke_def split: option.splits)
  qed
qed

lemma action_in_comment_split:
  "action_in_comment =
     ustr ''[{\"path\":\"lib/a.dart\",\"line\":10,\"comment\":\"see '' @ ustr ''ACTION:'' @
     ustr '' below\"}] ACTION: READY_FOR_HUMAN_REVIEW''"
  by (simp add: eval_defs)

lemma action_in_comment_first:
  "\<not> contains (ustr ''ACTION:'')
       (ustr ''[{\"path\":\"lib/a.dart\",\"line\":10,\"comment\":\"see '' @ butlast (ustr ''ACTION:''))"
  by (simp add: eval_defs)

lemma action_in_comment_stripped:
  "strip (ustr ''[{\"path\":\"lib/a.dart\",\"line\":10,\"comment\":\"see '') =
     ustr ''[{\"path\":\"lib/a.dart\",\"line\":10,\"comment\":\"see''"
  by (simp add: eval_defs)

lemma action_in_comment_not_parsed:
  "json_loads example_runtime (ustr ''[{\"path\":\"lib/a.dart\",\"line\":10,\"comment\":\"see'') =
     Inl JSONDecodeError"
  by (simp add: eval_defs)

theorem payload_cut_at_first_ACTION_witness:
  "action_in_comment =
     ustr ''[{\"path\":\"lib/a.dart\",\"line\":10,\"comment\":\"see '' @ ustr ''ACTION:'' @
     ustr '' below\"}] ACTION: READY_FOR_HUMAN_REVIEW'' \<and>
   \<not> contains (ustr ''ACTION:'')
       (ustr ''[{\"path\":\"lib/a.dart\",\"line\":10,\"comment\":\"see '' @ butlast (ustr ''ACTION:'')) \<and>
   json_str action_in_comment =
     Inr (ustr ''[{\"path\":\"lib/a.dart\",\"line\":10,\"comment\":\"see'') \<and>
   json_loads example_runtime (ustr ''[{\"path\":\"lib/a.dart\",\"line\":10,\"comment\":\"see'') =
     Inl JSONDecodeError \<and>
   apply_line_comments example_runtime accept_all alice action_in_comment head_commit =
     \<lparr>calls = [(CreateIssueComment (ustr ''AI Review Error: '' @ action_in_comment), None)],
      printed = [JSONDecodeError], raised = None\<rparr>"
proof -
  note t = payload_cut_at_first_ACTION [OF action_in_comment_split action_in_comment_first,
      of example_runtime JSONDecodeError accept_all alice head_commit]
  from t have a: "json_str action_in_comment =
     Inr (ustr ''[{\"path\":\"lib/a.dart\",\"line\":10,\"comment\":\"see'')"
    by (simp only: action_in_comment_stripped)
  from t action_in_comment_not_parsed
  have "apply_line_comments example_runtime accept_all alice action_in_comment head_commit =
              \<lparr>calls = [(CreateIssueComment (error_message action_in_comment),
                         accept_all [] (CreateIssueComment (error_message action_in_comment)))],
               printed = [JSONDecodeError],
               raised = accept_all [] (CreateIssueComment (error_message action_in_comment))\<rparr>"
    by (simp only: action_in_comment_stripped)
  then have b: "apply_line_comments example_runtime accept_all alice action_in_comment head_commit =
     \<lparr>calls = [(CreateIssueComment (ustr ''AI Review Error: '' @ action_in_comment), None)],
      printed = [JSONDecodeError], raised = None\<rparr>"
    by (simp add: accept_all_def error_message_def)
  from action_in_comment_split action_in_comment_first a action_in_comment_not_parsed b
  show ?thesis by (intro conjI)
qed

section \<open>Properties of the Review Generator and of the run\<close>

lemma foldl_append_concat:
  "foldl (\<lambda>acc x. acc @ g x) a xs = a @ concat (map g xs)"
  by (induction xs arbitrary: a) simp_all

lemma diff_content_concat: "diff_content files = concat (map file_entry files)"
  by (simp add: diff_content_def foldl_append_concat)

lemma prompt_embeds_diff: "contains diff (prompt standards diff)"
proof -
  have "\<exists>pre post. prompt standards diff = pre @ diff @ post"
    unfolding prompt_def
    by (rule exI [of _ "nl @ ustr ''    Review this PR for the Flutter IntelliJ plugin based on these standards:'' @
     nl @ ustr ''    '' @ standards @ nl @
     nl @ ustr ''    PR DIFF:'' @
     nl @ ustr ''    ''"], rule exI) simp
  then show ?thesis by (simp add: contains_iff)
qed

lemma latest_of_last: "latest_of cs = (if cs = [] then Inl IndexError else Inr (last cs))"
  by (cases cs rule: rev_cases) (simp_all add: latest_of_def first_item_def)

text \<open>
  Claim C6. The diff blob is the concatenation, over the changed files in the order the
  comparison lists them, of one entry per file: \<open>File: \<close>, the file's name, a newline,
  its patch text and two newlines. It is this blob that the prompt sent to the model
  embeds.
\<close>

theorem diff_blob_in_file_order:
  "diff_content files = concat (map file_entry files) \<and>
   file_entry f = ustr ''File: '' @ filename f @ [10] @ format_opt (patch f) @ [10, 10] \<and>
   contains (diff_content files) (prompt standards (diff_content files)) \<and>
   (read_standards w = Inr standards \<and> get_commits w = Inr cs \<and> cs \<noteq> [] \<and>
    compare w (base_sha pr) (head_sha pr) = Inr files \<and> generative_model w = None \<longrightarrow>
      fst (get_line_specific_review w pr) =
        [ReadStandards, GetCommits, Compare (base_sha pr) (head_sha pr), GenerativeModel,
         GenerateContent (prompt standards (concat (map file_entry files)))])"
proof (intro conjI impI)
  show "diff_content files = concat (map file_entry files)" by (rule diff_content_concat)
  show "file_entry f = ustr ''File: '' @ filename f @ [10] @ format_opt (patch f) @ [10, 10]"
    by (simp add: file_entry_def)
  show "contains (diff_content files) (prompt standards (diff_content files))"
    by (rule prompt_embeds_diff)
next
  assume h: "read_standards w = Inr standards \<and> get_commits w = Inr cs \<and> cs \<noteq> [] \<and>
    compare w (base_sha pr) (head_sha pr) = Inr files \<and> generative_model w = None"
  then show "fst (get_line_specific_review w pr) =
        [ReadStandards, GetCommits, Compare (base_sha pr) (head_sha pr), GenerativeModel,
         GenerateContent (prompt standards (concat (map file_entry files)))]"
    by (cases "generate_content w (prompt standards (diff_content files))")
       (simp_all add: get_line_specific_review_def latest_of_last diff_content_concat)
qed

theorem diff_blob_in_file_order_witness:
  "read_standards example_world = Inr (ustr ''Be kind.'') \<and>
   get_commits example_world = Inr [Commit (ustr ''0ld''), head_commit] \<and>
   compare example_world (base_sha example_pull) (head_sha example_pull) = Inr example_files \<and>
   generative_model example_world = None \<and>
   concat (map file_entry example_files) =
     ustr ''File: lib/b.dart'' @ [10] @ ustr ''+x'' @ [10, 10] @
     ustr ''File: lib/a.png'' @ [10] @ ustr ''None'' @ [10, 10] \<and>
   fst (get_line_specific_review example_world example_pull) =
     [ReadStandards, GetCommits, Compare (ustr ''ba5e'') (ustr ''c0ffee''), GenerativeModel,
      GenerateContent (prompt (ustr ''Be kind.'')
        (ustr ''File: lib/b.dart'' @ [10] @ ustr ''+x'' @ [10, 10] @
         ustr ''File: lib/a.png'' @ [10] @ ustr ''None'' @ [10, 10]))]"
proof -
  have a: "read_standards example_world = Inr (ustr ''Be kind.'')"
    and b: "get_commits example_world = Inr [Commit (ustr ''0ld''), head_commit]"
    and c: "compare example_world (base_sha example_pull) (head_sha example_pull) = Inr example_files"
    and d: "generative_model example_world = None"
    by (simp_all add: example_world_def)
  have n: "[Commit (ustr ''0ld''), head_commit] \<noteq> []" by simp
  have e: "concat (map file_entry example_files) =
     ustr ''File: lib/b.dart'' @ [10] @ ustr ''+x'' @ [10, 10] @
     ustr ''File: lib/a.png'' @ [10] @ ustr ''None'' @ [10, 10]"
    by (simp add: example_files_def file_entry_def format_opt_def ustr_def)
  have s: "base_sha example_pull = ustr ''ba5e''" "head_sha example_pull = ustr ''c0ffee''"
    by (simp_all add: example_pull_def)
  from diff_blob_in_file_order [where files = example_files and w = example_world
      and standards = "ustr ''Be kind.''" and cs = "[Commit (ustr ''0ld''), head_commit]"
      and pr = example_pull] a b c d n
  have "fst (get_line_specific_review example_world example_pull) =
        [ReadStandards, GetCommits, Compare (base_sha example_pull) (head_sha example_pull),
         GenerativeModel,
         GenerateContent (prompt (ustr ''Be kind.'') (concat (map file_entry example_files)))]"
    by blast
  then have f: "fst (get_line_specific_review example_world example_pull) =
     [ReadStandards, GetCommits, Compare (ustr ''ba5e'') (ustr ''c0ffee''), GenerativeModel,
      GenerateContent (prompt (ustr ''Be kind.'')
        (ustr ''File: lib/b.dart'' @ [10] @ ustr ''+x'' @ [10, 10] @
         ustr ''File: lib/a.png'' @ [10] @ ustr ''None'' @ [10, 10]))]"
    by (simp only: e s)
  from a b c d e f show ?thesis by (intro conjI)
qed

text \<open>
  Claim C7. When the generator returns, the text it returns is the text the model gave
  for the prompt, unchanged, and the commit is the last one of the pull request's commit
  list; and it does return them whenever the file, the commit list (not empty), the
  comparison and the model call all succeed.
\<close>

theorem generator_returns_text_and_last_commit:
  "(get_line_specific_review w pr = (ev, Inr (response_text, commit)) \<longrightarrow>
      (\<exists>standards cs files.
          read_standards w = Inr standards \<and> get_commits w = Inr cs \<and> cs \<noteq> [] \<and>
          commit = last cs \<and> compare w (base_sha pr) (head_sha pr) = Inr files \<and>
          generate_content w (prompt standards (diff_content files)) = Inr response_text)) \<and>
   (read_standards w = Inr standards \<and> get_commits w = Inr cs \<and> cs \<noteq> [] \<and>
    compare w (base_sha pr) (head_sha pr) = Inr files \<and> generative_model w = None \<and>
    generate_content w (prompt standards (diff_content files)) = Inr response_text \<longrightarrow>
      snd (get_line_specific_review w pr) = Inr (response_text, last cs))"
proof (intro conjI impI)
  assume "get_line_specific_review w pr = (ev, Inr (response_text, commit))"
  then show "\<exists>standards cs files.
          read_standards w = Inr standards \<and> get_commits w = Inr cs \<and> cs \<noteq> [] \<and>
          commit = last cs \<and> compare w (base_sha pr) (head_sha pr) = Inr files \<and>
          generate_content w (prompt standards (diff_content files)) = Inr response_text"
    by (auto simp: get_line_specific_review_def latest_of_last Let_def
             split: sum.splits option.splits if_splits)
next
  assume "read_standards w = Inr standards \<and> get_commits w = Inr cs \<and> cs \<noteq> [] \<and>
    compare w (base_sha pr) (head_sha pr) = Inr files \<and> generative_model w = None \<and>
    generate_content w (prompt standards (diff_content files)) = Inr response_text"
  then show "snd (get_line_specific_review w pr) = Inr (response_text, last cs)"
    by (simp add: get_line_specific_review_def latest_of_last)
qed

theorem generator_returns_text_and_last_commit_witness:
  "generate_content example_world
     (prompt (ustr ''Be kind.'') (diff_content example_files)) = Inr one_finding \<and>
   snd (get_line_specific_review example_world example_pull) = Inr (one_finding, head_commit) \<and>
   get_line_specific_review example_world example_pull =
     (fst (get_line_specific_review example_world example_pull), Inr (one_finding, head_commit)) \<and>
   (\<exists>standards cs files.
      read_standards example_world = Inr standards \<and> get_commits example_world = Inr cs \<and>
      cs \<noteq> [] \<and> head_commit = last cs \<and>
      compare example_world (base_sha example_pull) (head_sha example_pull) = Inr files \<and>
      generate_content example_world (prompt standards (diff_content files)) = Inr one_finding)"
proof -
  have a: "read_standards example_world = Inr (ustr ''Be kind.'')"
    and b: "get_commits example_world = Inr [Commit (ustr ''0ld''), head_commit]"
    and c: "compare example_world (base_sha example_pull) (head_sha example_pull) = Inr example_files"
    and d: "generative_model example_world = None"
    and g: "generate_content example_world
     (prompt (ustr ''Be kind.'') (diff_content example_files)) = Inr one_finding"
    by (simp_all add: example_world_def)
  have n: "[Commit (ustr ''0ld''), head_commit] \<noteq> []" by simp
  from generator_returns_text_and_last_commit [where w = example_world and pr = example_pull
      and standards = "ustr ''Be kind.''" and cs = "[Commit (ustr ''0ld''), head_commit]"
      and files = example_files and response_text = one_finding]
    a b c d g n
  have "snd (get_line_specific_review example_world example_pull) =
      Inr (one_finding, last [Commit (ustr ''0ld''), head_commit])"
    by blast
  then have s: "snd (get_line_specific_review example_world example_pull) =
      Inr (one_finding, head_commit)" by simp
  then have p: "get_line_specific_review example_world example_pull =
     (fst (get_line_specific_review example_world example_pull), Inr (one_finding, head_commit))"
    by (simp add: prod_eq_iff)
  from generator_returns_text_and_last_commit [where w = example_world and pr = example_pull
      and ev = "fst (get_line_specific_review example_world example_pull)"
      and response_text = one_finding and commit = head_commit] p
  have x: "\<exists>standards cs files.
      read_standards example_world = Inr standards \<and> get_commits example_world = Inr cs \<and>
      cs \<noteq> [] \<and> head_commit = last cs \<and>
      compare example_world (base_sha example_pull) (head_sha example_pull) = Inr files \<and>
      generate_content example_world (prompt standards (diff_content files)) = Inr one_finding"
    by blast
  from g s p x show ?thesis by (intro conjI)
qed

lemma module_setup_no_model_call: "GenerateContent p \<notin> set (fst (module_setup rt w))"
  by (auto simp: module_setup_def Let_def split: sum.splits option.splits)

lemma module_setup_unknown_pull:
  "pr_number rt (argv w) = Inr n \<Longrightarrow> get_pull w n = Inl e \<Longrightarrow>
   \<exists>ev e'. module_setup rt w = (ev, Inl e')"
  by (auto simp: module_setup_def Let_def split: sum.splits option.splits)

text \<open>
  Claim C5. When \<open>repo.get_pull\<close> raises for the number given on the command line, the
  run ends with an uncaught exception and without any call of the model; when the steps
  before it succeed, the exception is the one of the lookup, and the lookup is the last
  thing the run does.
\<close>

theorem unknown_pull_request_ends_the_run:
  assumes "pr_number rt (argv w) = Inr n" and "get_pull w n = Inl e"
  shows "uncaught (script rt w) \<noteq> None \<and>
         (\<forall>p. GenerateContent p \<notin> set (events (script rt w))) \<and>
         reported (script rt w) = [] \<and>
         (genai_configure w = None \<and> github_client w = None \<and>
          get_repo w (ustr ''flutter/flutter-intellij'') = None \<longrightarrow>
            script rt w =
              \<lparr>events = [GenaiConfigure, GithubClient, GetRepo (ustr ''flutter/flutter-intellij''),
                         GetPull n],
               reported = [], uncaught = Some e\<rparr>)"
proof -
  from module_setup_unknown_pull [OF assms] obtain ev e'
    where m: "module_setup rt w = (ev, Inl e')" by blast
  then have s: "script rt w = \<lparr>events = ev, reported = [], uncaught = Some e'\<rparr>"
    by (simp add: script_def)
  from m module_setup_no_model_call [of _ rt w] have "\<forall>p. GenerateContent p \<notin> set ev"
    by simp
  moreover have "genai_configure w = None \<and> github_client w = None \<and>
          get_repo w (ustr ''flutter/flutter-intellij'') = None \<longrightarrow>
            script rt w =
              \<lparr>events = [GenaiConfigure, GithubClient, GetRepo (ustr ''flutter/flutter-intellij''),
                         GetPull n],
               reported = [], uncaught = Some e\<rparr>"
    using assms by (simp add: script_def module_setup_def)
  ultimately show ?thesis using s by simp
qed

theorem unknown_pull_request_ends_the_run_witness:
  "pr_number example_runtime (argv unknown_pull_world) = Inr 7 \<and>
   get_pull unknown_pull_world 7 = Inl (ExternalError 404) \<and>
   script example_runtime unknown_pull_world =
     \<lparr>events = [GenaiConfigure, GithubClient, GetRepo (ustr ''flutter/flutter-intellij''), GetPull 7],
      reported = [], uncaught = Some (ExternalError 404)\<rparr>"
proof -
  have a: "pr_number example_runtime (argv unknown_pull_world) = Inr 7"
    by (simp add: pr_number_def eval_defs)
  have b: "get_pull unknown_pull_world 7 = Inl (ExternalError 404)"
    by (simp add: unknown_pull_world_def example_world_def)
  have c: "genai_configure unknown_pull_world = None" "github_client unknown_pull_world = None"
    "get_repo unknown_pull_world (ustr ''flutter/flutter-intellij'') = None"
    by (simp_all add: unknown_pull_world_def example_world_def)
  from unknown_pull_request_ends_the_run [OF a b] c
  have "script example_runtime unknown_pull_world =
     \<lparr>events = [GenaiConfigure, GithubClient, GetRepo (ustr ''flutter/flutter-intellij''), GetPull 7],
      reported = [], uncaught = Some (ExternalError 404)\<rparr>"
    by blast
  with a b show ?thesis by (intro conjI)
qed

text \<open>A run on a pull request that exists, from the command line to the handoff.\<close>

lemma example_run:
  "script example_runtime example_world =
     \<lparr>events = [GenaiConfigure, GithubClient, GetRepo (ustr ''flutter/flutter-intellij''), GetPull 42,
                ReadStandards, GetCommits, Compare (ustr ''ba5e'') (ustr ''c0ffee''), GenerativeModel,
                GenerateContent (prompt (ustr ''Be kind.'') (diff_content example_files)),
                PullRequestCall one_finding_call, PullRequestCall (AddToAssignees alice),
                PullRequestCall (CreateIssueComment (handoff_message alice))],
      reported = [], uncaught = None\<rparr>"
proof -
  have p: "pr_number example_runtime (argv example_world) = Inr 42"
    by (simp add: pr_number_def eval_defs)
  have m: "module_setup example_runtime example_world =
      ([GenaiConfigure, GithubClient, GetRepo (ustr ''flutter/flutter-intellij''), GetPull 42],
       Inr example_pull)"
    using p by (simp add: module_setup_def example_world_def)
  have g: "get_line_specific_review example_world example_pull =
      ([ReadStandards, GetCommits, Compare (ustr ''ba5e'') (ustr ''c0ffee''), GenerativeModel,
        GenerateContent (prompt (ustr ''Be kind.'') (diff_content example_files))],
       Inr (one_finding, head_commit))"
    by (simp add: get_line_specific_review_def example_world_def example_pull_def latest_of_last)
  have w: "github example_world = accept_all" "human_reviewer example_world = alice"
    by (simp_all add: example_world_def)
  have a: "apply_line_comments example_runtime accept_all alice one_finding head_commit =
     \<lparr>calls = [(one_finding_call, None), (AddToAssignees alice, None),
               (CreateIssueComment (handoff_message alice), None)],
      printed = [], raised = None\<rparr>"
    by (simp add: eval_defs)
  show ?thesis
    by (simp add: script_def m g w a)
qed

section \<open>The handoff\<close>

lemma entry_calls_are_review:
  "list_all2 (entry_call rt commit) cs cls \<Longrightarrow> list_all is_review_comment cls"
  by (induction rule: list_all2_induct) (auto dest: entry_call_is_review)

lemma returned_no_assignment:
  "list_all is_review_comment cls \<Longrightarrow> filter is_assignment (map fst (returned cls)) = []"
proof (induction cls)
  case Nil
  show ?case by (simp add: returned_def)
next
  case (Cons cl cls)
  then show ?case by (cases cl) (simp_all add: returned_def)
qed

lemma returned_no_issue_comment:
  "list_all is_review_comment cls \<Longrightarrow>
   filter (\<lambda>c. c = CreateIssueComment body) (map fst (returned cls)) = []"
proof (induction cls)
  case Nil
  show ?case by (simp add: returned_def)
next
  case (Cons cl cls)
  then show ?case by (cases cl) (simp_all add: returned_def)
qed

text \<open>
  Claim C1, as amended. Let the payload parse and every entry be posted without error.
  When the marker occurs in the raw response, the call that follows the line comments is
  the assignment of the configured reviewer, and it is the only assignment of the run;
  the handoff comment, which names the reviewer, is requested exactly once when the
  assignment returns and not at all when it raises; when both calls return, nothing else
  happens. When the marker does not occur, the line comments are the whole run. When the
  payload does not parse, the fallback comment is the only call, whether or not the marker
  occurs.
\<close>

theorem handoff_after_applied_comments:
  assumes "json_str raw = Inr js"
  shows "(contains (ustr ''READY_FOR_HUMAN_REVIEW'') raw \<and>
          json_loads rt js = Inr comments \<and> py_iter comments = Inr entries \<and>
          list_all2 (entry_call rt commit) entries cls \<and> accepts svc [] cls \<longrightarrow>
            (\<exists>rest. calls (apply_line_comments rt svc reviewer raw commit) =
                returned cls @
                (AddToAssignees reviewer, svc (returned cls) (AddToAssignees reviewer)) # rest) \<and>
            filter is_assignment (map fst (calls (apply_line_comments rt svc reviewer raw commit))) =
              [AddToAssignees reviewer] \<and>
            filter (\<lambda>c. c = CreateIssueComment (handoff_message reviewer))
                (map fst (calls (apply_line_comments rt svc reviewer raw commit))) =
              (if svc (returned cls) (AddToAssignees reviewer) = None
               then [CreateIssueComment (handoff_message reviewer)] else []) \<and>
            (svc (returned cls) (AddToAssignees reviewer) = None \<and>
             svc (returned cls @ [(AddToAssignees reviewer, None)])
               (CreateIssueComment (handoff_message reviewer)) = None \<longrightarrow>
               apply_line_comments rt svc reviewer raw commit =
                 \<lparr>calls = returned cls @
                      [(AddToAssignees reviewer, None),
                       (CreateIssueComment (handoff_message reviewer), None)],
                  printed = [], raised = None\<rparr>)) \<and>
         (\<not> contains (ustr ''READY_FOR_HUMAN_REVIEW'') raw \<and>
          json_loads rt js = Inr comments \<and> py_iter comments = Inr entries \<and>
          list_all2 (entry_call rt commit) entries cls \<and> accepts svc [] cls \<longrightarrow>
            apply_line_comments rt svc reviewer raw commit =
              \<lparr>calls = returned cls, printed = [], raised = None\<rparr>) \<and>
         (json_loads rt js = Inl e \<longrightarrow>
            apply_line_comments rt svc reviewer raw commit =
              \<lparr>calls = [(CreateIssueComment (error_message raw),
                         svc [] (CreateIssueComment (error_message raw)))],
               printed = [e],
               raised = svc [] (CreateIssueComment (error_message raw))\<rparr>) \<and>
         handoff_message (Some name) =
           ustr ''AI Review complete. Reassigning to @'' @ name @ ustr '' for final sign-off.''"
proof -
  let ?assign = "AddToAssignees reviewer"
  let ?handoff = "CreateIssueComment (handoff_message reviewer)"
  let ?fallback = "CreateIssueComment (error_message raw)"
  let ?X = "apply_line_comments rt svc reviewer raw commit"
  have ne: "?fallback \<noteq> ?handoff"
    using handoff_is_not_error_message [of reviewer raw] by auto
  have marked: "(\<exists>rest. calls ?X = returned cls @ (?assign, svc (returned cls) ?assign) # rest) \<and>
            filter is_assignment (map fst (calls ?X)) = [?assign] \<and>
            filter (\<lambda>c. c = ?handoff) (map fst (calls ?X)) =
              (if svc (returned cls) ?assign = None then [?handoff] else []) \<and>
            (svc (returned cls) ?assign = None \<and>
             svc (returned cls @ [(?assign, None)]) ?handoff = None \<longrightarrow>
               ?X = \<lparr>calls = returned cls @ [(?assign, None), (?handoff, None)],
                      printed = [], raised = None\<rparr>)"
    if h: "contains (ustr ''READY_FOR_HUMAN_REVIEW'') raw \<and>
          json_loads rt js = Inr comments \<and> py_iter comments = Inr entries \<and>
          list_all2 (entry_call rt commit) entries cls \<and> accepts svc [] cls"
  proof -
    from h have m: "contains (ustr ''READY_FOR_HUMAN_REVIEW'') raw"
      and p: "json_loads rt js = Inr comments" and i: "py_iter comments = Inr entries"
      and l: "list_all2 (entry_call rt commit) entries cls" and a: "accepts svc [] cls"
      by simp_all
    from l a have "post_comments rt svc commit entries [] = (None, [] @ returned cls)"
      by (rule post_comments_returned)
    then have posts: "post_comments rt svc commit entries [] = (None, returned cls)" by simp
    have body: "try_body rt svc reviewer raw commit =
        (case invoke svc (returned cls) ?assign of
           (Some e, tr1) \<Rightarrow> (Some e, tr1)
         | (None, tr1) \<Rightarrow> invoke svc tr1 ?handoff)"
      using posts m by (simp add: try_body_parsed [OF assms p i])
    from l have rv: "list_all is_review_comment cls" by (rule entry_calls_are_review)
    note na = returned_no_assignment [OF rv]
    note nh = returned_no_issue_comment [OF rv, of "handoff_message reviewer"]
    show ?thesis
    proof (cases "svc (returned cls) ?assign")
      case (Some x)
      with body have "try_body rt svc reviewer raw commit =
          (Some x, returned cls @ [(?assign, Some x)])"
        by (simp add: invoke_def)
      then have c: "calls ?X = returned cls @ [(?assign, Some x),
            (?fallback, svc (returned cls @ [(?assign, Some x)]) ?fallback)]"
        by (simp add: apply_on_raise)
      with Some na nh ne show ?thesis by simp
    next
      case None
      show ?thesis
      proof (cases "svc (returned cls @ [(?assign, None)]) ?handoff")
        case hn: None
        with body None have "try_body rt svc reviewer raw commit =
            (None, returned cls @ [(?assign, None), (?handoff, None)])"
          by (simp add: invoke_def)
        then have x: "?X = \<lparr>calls = returned cls @ [(?assign, None), (?handoff, None)],
                      printed = [], raised = None\<rparr>"
          by (simp add: apply_on_return)
        with None hn na nh show ?thesis by simp
      next
        case hs: (Some x)
        with body None have "try_body rt svc reviewer raw commit =
            (Some x, returned cls @ [(?assign, None), (?handoff, Some x)])"
          by (simp add: invoke_def)
        then have c: "calls ?X = returned cls @ [(?assign, None), (?handoff, Some x),
            (?fallback, svc (returned cls @ [(?assign, None), (?handoff, Some x)]) ?fallback)]"
          by (simp add: apply_on_raise)
        with None hs na nh ne show ?thesis by simp
      qed
    qed
  qed
  have unmarked: "?X = \<lparr>calls = returned cls, printed = [], raised = None\<rparr>"
    if h: "\<not> contains (ustr ''READY_FOR_HUMAN_REVIEW'') raw \<and>
          json_loads rt js = Inr comments \<and> py_iter comments = Inr entries \<and>
          list_all2 (entry_call rt commit) entries cls \<and> accepts svc [] cls"
  proof -
    from h have m: "\<not> contains (ustr ''READY_FOR_HUMAN_REVIEW'') raw"
      and p: "json_loads rt js = Inr comments" and i: "py_iter comments = Inr entries"
      and l: "list_all2 (entry_call rt commit) entries cls" and a: "accepts svc [] cls"
      by simp_all
    from l a have "post_comments rt svc commit entries [] = (None, [] @ returned cls)"
      by (rule post_comments_returned)
    then have "try_body rt svc reviewer raw commit = (None, returned cls)"
      using m by (simp add: try_body_parsed [OF assms p i])
    then show ?thesis by (rule apply_on_return)
  qed
  have failed: "?X = \<lparr>calls = [(?fallback, svc [] ?fallback)], printed = [e],
                        raised = svc [] ?fallback\<rparr>"
    if "json_loads rt js = Inl e"
    using assms that by (rule apply_not_parsed)
  have msg: "handoff_message (Some name) =
           ustr ''AI Review complete. Reassigning to @'' @ name @ ustr '' for final sign-off.''"
    by (simp add: handoff_message_def format_opt_def)
  from marked unmarked failed msg show ?thesis by blast
qed

lemma no_marker_payload:
  "json_str no_marker = Inr (ustr ''[{\"path\":\"lib/a.dart\",\"line\":10,\"comment\":\"fix this\"}]'')"
  by (simp add: eval_defs)

lemma no_marker_unmarked: "\<not> contains (ustr ''READY_FOR_HUMAN_REVIEW'') no_marker"
  by (simp add: eval_defs)

theorem handoff_after_applied_comments_witness:
  "contains (ustr ''READY_FOR_HUMAN_REVIEW'') one_finding \<and>
   accepts accept_all [] [one_finding_call] \<and>
   apply_line_comments example_runtime accept_all alice one_finding head_commit =
     \<lparr>calls = [(one_finding_call, None), (AddToAssignees alice, None),
               (CreateIssueComment
                  (ustr ''AI Review complete. Reassigning to @alice for final sign-off.''), None)],
      printed = [], raised = None\<rparr> \<and>
   accepts refuse_assignment [] [one_finding_call] \<and>
   refuse_assignment (returned [one_finding_call]) (AddToAssignees alice) = Some (ExternalError 422) \<and>
   filter is_assignment
     (map fst (calls (apply_line_comments example_runtime refuse_assignment alice one_finding
        head_commit))) = [AddToAssignees alice] \<and>
   filter (\<lambda>c. c = CreateIssueComment (handoff_message alice))
     (map fst (calls (apply_line_comments example_runtime refuse_assignment alice one_finding
        head_commit))) = [] \<and>
   \<not> contains (ustr ''READY_FOR_HUMAN_REVIEW'') no_marker \<and>
   apply_line_comments example_runtime accept_all alice no_marker head_commit =
     \<lparr>calls = [(one_finding_call, None)], printed = [], raised = None\<rparr> \<and>
   contains (ustr ''READY_FOR_HUMAN_REVIEW'') trailing_comma \<and>
   json_loads example_runtime
     (ustr ''[{\"path\":\"lib/a.dart\",\"line\":10,\"comment\":\"fix this\"},]'') = Inl JSONDecodeError \<and>
   apply_line_comments example_runtime accept_all alice trailing_comma head_commit =
     \<lparr>calls = [(CreateIssueComment (ustr ''AI Review Error: '' @ trailing_comma), None)],
      printed = [JSONDecodeError], raised = None\<rparr>"
proof -
  have a1: "accepts accept_all [] [one_finding_call]" by (simp add: accept_all_def)
  have a2: "accepts refuse_assignment [] [one_finding_call]"
    by (simp add: refuse_assignment_def one_finding_call_def)
  have r2: "refuse_assignment (returned [one_finding_call]) (AddToAssignees alice) =
      Some (ExternalError 422)"
    by (simp add: refuse_assignment_def)
  have ok: "accept_all (returned [one_finding_call]) (AddToAssignees alice) = None"
    "accept_all (returned [one_finding_call] @ [(AddToAssignees alice, None)])
       (CreateIssueComment (handoff_message alice)) = None"
    by (simp_all add: accept_all_def)
  have m: "handoff_message alice =
      ustr ''AI Review complete. Reassigning to @alice for final sign-off.''"
    by (simp add: eval_defs)
  note t1 = handoff_after_applied_comments [OF one_finding_payload,
      where rt = example_runtime and commit = head_commit and cls = "[one_finding_call]"
        and svc = accept_all and reviewer = alice]
  from t1 one_finding_marked one_finding_parsed one_finding_iter one_finding_entry a1 ok
  have "apply_line_comments example_runtime accept_all alice one_finding head_commit =
      \<lparr>calls = returned [one_finding_call] @
           [(AddToAssignees alice, None), (CreateIssueComment (handoff_message alice), None)],
       printed = [], raised = None\<rparr>"
    by blast
  with m have x: "apply_line_comments example_runtime accept_all alice one_finding head_commit =
     \<lparr>calls = [(one_finding_call, None), (AddToAssignees alice, None),
               (CreateIssueComment
                  (ustr ''AI Review complete. Reassigning to @alice for final sign-off.''), None)],
      printed = [], raised = None\<rparr>"
    by (simp add: returned_def)
  note t2 = handoff_after_applied_comments [OF one_finding_payload,
      where rt = example_runtime and commit = head_commit and cls = "[one_finding_call]"
        and svc = refuse_assignment and reviewer = alice]
  from t2 one_finding_marked one_finding_parsed one_finding_iter one_finding_entry a2
  have y: "filter is_assignment
     (map fst (calls (apply_line_comments example_runtime refuse_assignment alice one_finding
        head_commit))) = [AddToAssignees alice]"
    by blast
  from t2 one_finding_marked one_finding_parsed one_finding_iter one_finding_entry a2
  have "filter (\<lambda>c. c = CreateIssueComment (handoff_message alice))
     (map fst (calls (apply_line_comments example_runtime refuse_assignment alice one_finding
        head_commit))) =
     (if refuse_assignment (returned [one_finding_call]) (AddToAssignees alice) = None
      then [CreateIssueComment (handoff_message alice)] else [])"
    by blast
  with r2 have z: "filter (\<lambda>c. c = CreateIssueComment (handoff_message alice))
     (map fst (calls (apply_line_comments example_runtime refuse_assignment alice one_finding
        head_commit))) = []"
    by simp
  note t3 = handoff_after_applied_comments [OF no_marker_payload,
      where rt = example_runtime and commit = head_commit and cls = "[one_finding_call]"
        and svc = accept_all and reviewer = alice]
  from t3 no_marker_unmarked one_finding_parsed one_finding_iter one_finding_entry a1
  have "apply_line_comments example_runtime accept_all alice no_marker head_commit =
     \<lparr>calls = returned [one_finding_call], printed = [], raised = None\<rparr>"
    by blast
  then have u: "apply_line_comments example_runtime accept_all alice no_marker head_commit =
     \<lparr>calls = [(one_finding_call, None)], printed = [], raised = None\<rparr>"
    by (simp add: returned_def)
  note t4 = handoff_after_applied_comments [OF trailing_comma_payload,
      where rt = example_runtime and commit = head_commit and svc = accept_all
        and reviewer = alice and e = JSONDecodeError]
  from t4 trailing_comma_not_parsed
  have "apply_line_comments example_runtime accept_all alice trailing_comma head_commit =
     \<lparr>calls = [(CreateIssueComment (error_message trailing_comma),
                accept_all [] (CreateIssueComment (error_message trailing_comma)))],
      printed = [JSONDecodeError],
      raised = accept_all [] (CreateIssueComment (error_message trailing_comma))\<rparr>"
    by blast
  then have v: "apply_line_comments example_runtime accept_all alice trailing_comma head_commit =
     \<lparr>calls = [(CreateIssueComment (ustr ''AI Review Error: '' @ trailing_comma), None)],
      printed = [JSONDecodeError], raised = None\<rparr>"
    by (simp add: accept_all_def error_message_def)
  from one_finding_marked a1 x a2 r2 y z no_marker_unmarked u trailing_comma_marked
    trailing_comma_not_parsed v
  show ?thesis by (intro conjI)
qed

section \<open>The line comments of a run\<close>

lemma module_setup_no_review_event: "filter is_review_event (fst (module_setup rt w)) = []"
  by (auto simp: module_setup_def Let_def split: sum.splits option.splits)

lemma generator_no_review_event:
  "filter is_review_event (fst (get_line_specific_review w pr)) = []"
  by (auto simp: get_line_specific_review_def Let_def split: sum.splits option.splits)

lemma review_events_of_calls:
  "filter is_review_event (map (\<lambda>(c, _). PullRequestCall c) tr) =
     map PullRequestCall (filter is_review_comment (map fst tr))"
  by (induction tr) auto

lemma generator_commit_is_last:
  "get_line_specific_review w pr = (ev, Inr (response_text, commit)) \<Longrightarrow>
   \<exists>cs. get_commits w = Inr cs \<and> cs \<noteq> [] \<and> commit = last cs"
  by (auto simp: get_line_specific_review_def latest_of_last Let_def
           split: sum.splits option.splits if_splits)

lemma script_applies:
  "module_setup rt w = (ev, Inr pr) \<Longrightarrow>
   get_line_specific_review w pr = (ev1, Inr (raw, commit)) \<Longrightarrow>
   events (script rt w) =
     ev @ ev1 @ map (\<lambda>(c, _). PullRequestCall c)
       (calls (apply_line_comments rt (github w) (human_reviewer w) raw commit))"
  by (simp add: script_def Let_def)

text \<open>
  Claim C3. When the payload parses to a list of \<open>N\<close> well-formed entries and the service
  lets every line comment through, exactly \<open>N\<close> line-comment calls are made: they are the
  first \<open>N\<close> calls, the \<open>k\<close>-th carries the comment, the path and the line of the \<open>k\<close>-th
  entry, and all of them are anchored to the commit that was passed in. In a run of the
  script, that commit is the one the Review Generator returned with the response, the last
  of the pull request's commits, and the line-comment calls of the run are these \<open>N\<close>.
\<close>

theorem line_comments_in_entry_order:
  assumes "json_str raw = Inr js"
    and "json_loads rt js = Inr (PList entries)"
    and "list_all2 (entry_call rt commit) entries cls"
    and "accepts svc [] cls"
  shows "length cls = length entries \<and>
         take (length entries) (calls (apply_line_comments rt svc reviewer raw commit)) = returned cls \<and>
         filter is_review_comment (map fst (calls (apply_line_comments rt svc reviewer raw commit))) = cls \<and>
         list_all (\<lambda>cl. \<exists>body path n. cl = CreateReviewComment body commit path n) cls \<and>
         (module_setup rt w = (ev, Inr pr) \<and>
          get_line_specific_review w pr = (ev1, Inr (raw, commit)) \<and> github w = svc \<longrightarrow>
            filter is_review_event (events (script rt w)) = map PullRequestCall cls \<and>
            (\<exists>cs. get_commits w = Inr cs \<and> cs \<noteq> [] \<and> commit = last cs))"
proof -
  from assms(3) have len: "length cls = length entries"
    by (simp add: list_all2_lengthD)
  have it: "py_iter (PList entries) = Inr entries" by (simp add: py_iter_def)
  from assms(3,4) have "post_comments rt svc commit entries [] = (None, [] @ returned cls)"
    by (rule post_comments_returned)
  then have posts: "post_comments rt svc commit entries [] = (None, returned cls)" by simp
  have lr: "length (returned cls) = length entries" using len by (simp add: returned_def)
  have t: "take (length entries) (calls (apply_line_comments rt svc rv raw commit)) = returned cls"
    and f: "filter is_review_comment (map fst (calls (apply_line_comments rt svc rv raw commit))) = cls"
    for rv
  proof -
    from apply_after_posts [OF assms(1,2) it posts, of rv]
    obtain extra where c: "calls (apply_line_comments rt svc rv raw commit) = returned cls @ extra"
      and x: "filter is_review_comment (map fst extra) = []"
      by blast
    from c lr show "take (length entries) (calls (apply_line_comments rt svc rv raw commit)) = returned cls"
      by simp
    from c x filter_returned_review [OF assms(3)]
    show "filter is_review_comment (map fst (calls (apply_line_comments rt svc rv raw commit))) = cls"
      by simp
  qed
  from assms(3) have a: "list_all (\<lambda>cl. \<exists>body path n. cl = CreateReviewComment body commit path n) cls"
    by (induction rule: list_all2_induct) (auto dest: entry_call_anchored)
  have run: "filter is_review_event (events (script rt w)) = map PullRequestCall cls \<and>
            (\<exists>cs. get_commits w = Inr cs \<and> cs \<noteq> [] \<and> commit = last cs)"
    if h: "module_setup rt w = (ev, Inr pr) \<and>
          get_line_specific_review w pr = (ev1, Inr (raw, commit)) \<and> github w = svc"
  proof -
    from h have m: "module_setup rt w = (ev, Inr pr)"
      and g: "get_line_specific_review w pr = (ev1, Inr (raw, commit))" and s: "github w = svc"
      by simp_all
    from module_setup_no_review_event [of rt w] m have e0: "filter is_review_event ev = []"
      by simp
    from generator_no_review_event [of w pr] g have e1: "filter is_review_event ev1 = []"
      by simp
    from script_applies [OF m g] s e0 e1 f [of "human_reviewer w"]
    have "filter is_review_event (events (script rt w)) = map PullRequestCall cls"
      by (simp add: review_events_of_calls)
    with generator_commit_is_last [OF g] show ?thesis by simp
  qed
  from len t [of reviewer] f [of reviewer] a run show ?thesis by blast
qed

lemma two_findings_entries:
  "list_all2 (entry_call example_runtime head_commit)
     [PDict [(ustr ''path'', PStr (ustr ''lib/a.dart'')), (ustr ''line'', PInt 10),
             (ustr ''comment'', PStr (ustr ''fix this''))],
      PDict [(ustr ''path'', PStr (ustr ''lib/b.dart'')), (ustr ''line'', PStr (ustr ''20'')),
             (ustr ''comment'', PStr (ustr ''rename''))]]
     [one_finding_call, two_findings_call]"
  by (simp add: eval_defs)

lemma two_findings_setup:
  "module_setup example_runtime two_findings_world =
     ([GenaiConfigure, GithubClient, GetRepo (ustr ''flutter/flutter-intellij''), GetPull 42],
      Inr example_pull)"
proof -
  have p: "pr_number example_runtime (argv two_findings_world) = Inr 42"
    by (simp add: pr_number_def eval_defs)
  then show ?thesis
    by (simp add: module_setup_def two_findings_world_def example_world_def)
qed

lemma two_findings_generated:
  "get_line_specific_review two_findings_world example_pull =
     ([ReadStandards, GetCommits, Compare (ustr ''ba5e'') (ustr ''c0ffee''), GenerativeModel,
       GenerateContent (prompt (ustr ''Be kind.'') (diff_content example_files))],
      Inr (two_findings, head_commit))"
  by (simp add: get_line_specific_review_def two_findings_world_def example_world_def
        example_pull_def latest_of_last)

theorem line_comments_in_entry_order_witness:
  "accepts accept_all [] [one_finding_call, two_findings_call] \<and>
   get_commits two_findings_world = Inr [Commit (ustr ''0ld''), head_commit] \<and>
   snd (get_line_specific_review two_findings_world example_pull) = Inr (two_findings, head_commit) \<and>
   take 2 (calls (apply_line_comments example_runtime accept_all alice two_findings head_commit)) =
     [(CreateReviewComment (PStr (ustr ''fix this'')) head_commit (PStr (ustr ''lib/a.dart'')) 10, None),
      (CreateReviewComment (PStr (ustr ''rename'')) head_commit (PStr (ustr ''lib/b.dart'')) 20, None)] \<and>
   filter is_review_comment
     (map fst (calls (apply_line_comments example_runtime accept_all alice two_findings head_commit))) =
     [CreateReviewComment (PStr (ustr ''fix this'')) head_commit (PStr (ustr ''lib/a.dart'')) 10,
      CreateReviewComment (PStr (ustr ''rename'')) head_commit (PStr (ustr ''lib/b.dart'')) 20] \<and>
   filter is_review_event (events (script example_runtime two_findings_world)) =
     [PullRequestCall
        (CreateReviewComment (PStr (ustr ''fix this'')) head_commit (PStr (ustr ''lib/a.dart'')) 10),
      PullRequestCall
        (CreateReviewComment (PStr (ustr ''rename'')) head_commit (PStr (ustr ''lib/b.dart'')) 20)]"
proof -
  have a: "accepts accept_all [] [one_finding_call, two_findings_call]"
    by (simp add: accept_all_def)
  have c: "get_commits two_findings_world = Inr [Commit (ustr ''0ld''), head_commit]"
    and g: "github two_findings_world = accept_all"
    by (simp_all add: two_findings_world_def example_world_def)
  from two_findings_generated
  have s: "snd (get_line_specific_review two_findings_world example_pull) =
      Inr (two_findings, head_commit)" by simp
  note t = line_comments_in_entry_order [OF two_findings_payload two_findings_parsed
      two_findings_entries a, where reviewer = alice and w = two_findings_world
        and pr = example_pull]
  from t have k: "take 2 (calls (apply_line_comments example_runtime accept_all alice two_findings
      head_commit)) = returned [one_finding_call, two_findings_call]"
    by (simp add: numeral_2_eq_2)
  from t have f: "filter is_review_comment
     (map fst (calls (apply_line_comments example_runtime accept_all alice two_findings head_commit))) =
     [one_finding_call, two_findings_call]"
    by blast
  from t two_findings_setup two_findings_generated g
  have r: "filter is_review_event (events (script example_runtime two_findings_world)) =
     map PullRequestCall [one_finding_call, two_findings_call]"
    by blast
  from a c s k f r show ?thesis
    by (simp add: returned_def one_finding_call_def two_findings_call_def)
qed

section \<open>The decoder never runs out of iterations\<close>

lemma skip_ws_length: "length (skip_ws s) \<le> length s"
  by (simp add: skip_ws_def length_dropWhile_le)

lemma next_chunk_closing_length: "next_chunk s = Closing r \<Longrightarrow> length r < length s"
  by (auto simp: next_chunk_def split: list.splits if_splits option.splits)

lemma scanstring_length: "scanstring s acc = Inr (str, r) \<Longrightarrow> length r < length s"
proof (induction s acc rule: scanstring.induct)
  case (1 s acc)
  show ?case
  proof (cases "next_chunk s")
    case (Closing r1)
    with "1.prems" have "r = r1" by simp
    with Closing show ?thesis by (simp add: next_chunk_closing_length)
  next
    case (Character c r1)
    with "1.prems" have "scanstring r1 (c # acc) = Inr (str, r)" by simp
    with "1.IH" [OF Character] have "length r < length r1" by simp
    moreover from Character have "length r1 < length s" by (rule next_chunk_length)
    ultimately show ?thesis by simp
  next
    case Invalid
    with "1.prems" show ?thesis by simp
  qed
qed

lemma match_int_length: "match_int s = Some (i, r) \<Longrightarrow> length r < length s"
  by (cases s)
     (auto simp: match_int_def Let_def split: list.splits if_splits
           intro: le_imp_less_Suc length_dropWhile_le le_SucI)

lemma match_frac_length: "match_frac s = Some (f, r) \<Longrightarrow> length r \<le> length s"
  by (auto simp: match_frac_def split: list.splits if_splits
           intro: length_dropWhile_le le_SucI)

lemma match_exp_length: "match_exp s = Some (e, r) \<Longrightarrow> length r \<le> length s"
  by (auto simp: match_exp_def Let_def split: list.splits if_splits
           intro: length_dropWhile_le le_SucI)

lemma match_number_length:
  assumes "match_number rt s = Some (x, r)"
  shows "length r < length s"
proof -
  from assms obtain i r1 where i: "match_int s = Some (i, r1)"
    by (auto simp: match_number_def split: option.splits)
  then have l1: "length r1 < length s" by (rule match_int_length)
  obtain f r2 where f: "(case match_frac r1 of None \<Rightarrow> ([], r1) | Some fr \<Rightarrow> fr) = (f, r2)"
    by (cases "case match_frac r1 of None \<Rightarrow> ([], r1) | Some fr \<Rightarrow> fr") auto
  then have l2: "length r2 \<le> length r1"
    by (auto split: option.splits dest: match_frac_length)
  obtain e r3 where e: "(case match_exp r2 of None \<Rightarrow> ([], r2) | Some er \<Rightarrow> er) = (e, r3)"
    by (cases "case match_exp r2 of None \<Rightarrow> ([], r2) | Some er \<Rightarrow> er") auto
  then have l3: "length r3 \<le> length r2"
    by (auto split: option.splits dest: match_exp_length)
  from assms i f e have "r = r3" by (simp add: match_number_def)
  with l1 l2 l3 show ?thesis by simp
qed

lemma prefix_drop_length:
  "prefix p s \<Longrightarrow> p \<noteq> [] \<Longrightarrow> k = length p \<Longrightarrow> length (drop k s) < length s"
  by (auto simp: prefix_def)

lemma scan_atom_length:
  assumes "scan_atom rt s = Inr (v, r)"
  shows "length r < length s"
proof -
  have n: "ustr ''null'' \<noteq> []" "ustr ''true'' \<noteq> []" "ustr ''false'' \<noteq> []"
    "ustr ''NaN'' \<noteq> []" "ustr ''Infinity'' \<noteq> []" "ustr ''-Infinity'' \<noteq> []"
    by (simp_all add: ustr_def)
  have l: "length (ustr ''null'') = 4" "length (ustr ''true'') = 4" "length (ustr ''false'') = 5"
    "length (ustr ''NaN'') = 3" "length (ustr ''Infinity'') = 8" "length (ustr ''-Infinity'') = 9"
    by (simp_all add: ustr_def)
  from assms show ?thesis
    unfolding scan_atom_def
    by (auto split: if_splits option.splits sum.splits
             dest: match_number_length
             intro: prefix_drop_length [OF _ n(1)] prefix_drop_length [OF _ n(2)]
               prefix_drop_length [OF _ n(3)] prefix_drop_length [OF _ n(4)]
               prefix_drop_length [OF _ n(5)] prefix_drop_length [OF _ n(6)]
             simp: l)
qed

lemma scan_shorter:
  "scan_once rt d n s = Inr (v, r) \<Longrightarrow> length r < length s"
  "parse_array rt d n k s acc = Inr (v, r) \<Longrightarrow> length r < length s"
  "parse_object rt d n k s acc2 = Inr (v, r) \<Longrightarrow> length r < length s"
proof (induction rt d n s and rt d n k s acc and rt d n k s acc2 arbitrary: v r and v r and v r
       rule: scan_once_parse_array_parse_object.induct)
  case (1 rt d n)
  then show ?case by simp
next
  case (2 rt d n c r0)
  show ?case
  proof (cases "c = 34")
    case True
    with "2.prems" obtain str where "scanstring r0 [] = Inr (str, r)"
      by (auto simp del: scanstring.simps split: sum.splits)
    then have "length r < length r0" by (rule scanstring_length)
    then show ?thesis by simp
  next
    case s: False
    show ?thesis
    proof (cases "c = 123")
      case True
      with s "2.prems" obtain d1 c1 r1 where d: "d = Suc d1" and w: "skip_ws r0 = c1 # r1"
        by (auto split: nat.splits list.splits)
      have wl: "length (c1 # r1) \<le> length r0" using skip_ws_length [of r0] w by simp
      show ?thesis
      proof (cases "c1 = 125")
        case e: True
        with s True d w "2.prems" have "r = r1" by simp
        with wl show ?thesis by simp
      next
        case e: False
        with s True d w "2.prems" have "parse_object rt d1 n n (c1 # r1) [] = Inr (v, r)" by simp
        from "2.IH"(1) [OF s True d w e this] wl show ?thesis by simp
      qed
    next
      case o: False
      show ?thesis
      proof (cases "c = 91")
        case True
        with s o "2.prems" obtain d1 c1 r1 where d: "d = Suc d1" and w: "skip_ws r0 = c1 # r1"
          by (auto split: nat.splits list.splits)
        have wl: "length (c1 # r1) \<le> length r0" using skip_ws_length [of r0] w by simp
        show ?thesis
        proof (cases "c1 = 93")
          case e: True
          with s o True d w "2.prems" have "r = r1" by simp
          with wl show ?thesis by simp
        next
          case e: False
          with s o True d w "2.prems" have "parse_array rt d1 n n (c1 # r1) [] = Inr (v, r)" by simp
          from "2.IH"(2) [OF s o True d w e this] wl show ?thesis by simp
        qed
      next
        case False
        with s o "2.prems" have "scan_atom rt (c # r0) = Inr (v, r)" by simp
        then show ?thesis by (rule scan_atom_length)
      qed
    qed
  qed
next
  case (3 rt d n s acc)
  then show ?case by simp
next
  case (4 rt d n k s acc)
  from "4.prems" obtain v1 r1 where a: "scan_once rt d n s = Inr (v1, r1)"
    by (auto split: sum.splits)
  from "4.IH"(1) [OF a] have l1: "length r1 < length s" .
  from "4.prems" a obtain c r2 where w: "skip_ws r1 = c # r2"
    by (auto split: list.splits)
  have wl: "length (c # r2) \<le> length r1" using skip_ws_length [of r1] w by simp
  show ?case
  proof (cases "c = 93")
    case True
    with "4.prems" a w have "r = r2" by simp
    with wl l1 show ?thesis by simp
  next
    case e: False
    with "4.prems" a w have c: "c = 44" by (auto split: if_splits)
    with "4.prems" a w e have "parse_array rt d n k (skip_ws r2) (v1 # acc) = Inr (v, r)" by simp
    from "4.IH"(2) [OF a refl w e c this] have "length r < length (skip_ws r2)" .
    with skip_ws_length [of r2] wl l1 show ?thesis by simp
  qed
next
  case (5 rt d n s acc)
  then show ?case by simp
next
  case (6 rt d n k s acc)
  from "6.prems" obtain q r0 where s: "s = q # r0" and q: "\<not> q \<noteq> 34"
    by (auto split: list.splits if_splits)
  from "6.prems" s q obtain key r1 where k: "scanstring r0 [] = Inr (key, r1)"
    by (auto simp del: scanstring.simps split: sum.splits)
  then have l1: "length r1 < length r0" by (rule scanstring_length)
  from "6.prems" s q k obtain c r2 where w: "skip_ws r1 = c # r2" and c: "\<not> c \<noteq> 58"
    by (auto split: list.splits if_splits)
  have wl: "length (c # r2) \<le> length r1" using skip_ws_length [of r1] w by simp
  from "6.prems" s q k w c obtain v1 r3 where a: "scan_once rt d n (skip_ws r2) = Inr (v1, r3)"
    by (auto split: sum.splits)
  from "6.IH"(1) [OF s q k refl w c a] have l3: "length r3 < length (skip_ws r2)" .
  from "6.prems" s q k w c a obtain c2 r4 where w2: "skip_ws r3 = c2 # r4"
    by (auto split: list.splits)
  have wl2: "length (c2 # r4) \<le> length r3" using skip_ws_length [of r3] w2 by simp
  have base: "length r4 < length s"
    using wl2 l3 skip_ws_length [of r2] wl l1 s by simp
  show ?case
  proof (cases "c2 = 125")
    case True
    with "6.prems" s q k w c a w2 have "r = r4" by simp
    with base show ?thesis by simp
  next
    case e: False
    with "6.prems" s q k w c a w2 have c44: "c2 = 44" by (auto split: if_splits)
    with "6.prems" s q k w c a w2 e
    have "parse_object rt d n k (skip_ws r4) (dict_set acc key v1) = Inr (v, r)" by simp
    from "6.IH"(2) [OF s q k refl w c a refl w2 e c44 this]
    have "length r < length (skip_ws r4)" .
    with skip_ws_length [of r4] base show ?thesis by simp
  qed
qed

text \<open>
  The bound on the number of items has no effect once it is at least the length of the
  text: a larger bound gives the same result. So \<open>json_loads\<close>, which starts with the
  length of the whole text, never stops for lack of iterations.
\<close>

lemma bound_irrelevant:
  "length s \<le> n \<Longrightarrow> length s \<le> n' \<Longrightarrow> scan_once rt d n s = scan_once rt d n' s"
  "length s \<le> n \<Longrightarrow> length s \<le> n' \<Longrightarrow> length s \<le> k \<Longrightarrow> length s \<le> k' \<Longrightarrow>
     parse_array rt d n k s acc = parse_array rt d n' k' s acc"
  "length s \<le> n \<Longrightarrow> length s \<le> n' \<Longrightarrow> length s \<le> k \<Longrightarrow> length s \<le> k' \<Longrightarrow>
     parse_object rt d n k s acc2 = parse_object rt d n' k' s acc2"
proof (induction rt d n s and rt d n k s acc and rt d n k s acc2
       arbitrary: n' and n' k' and n' k'
       rule: scan_once_parse_array_parse_object.induct)
  case (1 rt d n)
  show ?case by simp
next
  case (2 rt d n c r0)
  show ?case
  proof (cases "c = 34")
    case True
    then show ?thesis by simp
  next
    case s: False
    show ?thesis
    proof (cases "c = 123")
      case True
      show ?thesis
      proof (cases d)
        case 0
        with s True show ?thesis by simp
      next
        case (Suc d1)
        show ?thesis
        proof (cases "skip_ws r0")
          case Nil
          with s True Suc show ?thesis by simp
        next
          case (Cons c1 r1)
          have wl: "length (c1 # r1) \<le> length r0" using skip_ws_length [of r0] Cons by simp
          show ?thesis
          proof (cases "c1 = 125")
            case e: True
            with s True Suc Cons show ?thesis by simp
          next
            case e: False
            from wl "2.prems" have b: "length (c1 # r1) \<le> n" "length (c1 # r1) \<le> n'" by simp_all
            from "2.IH"(1) [OF s True Suc Cons e b(1) b(2) b(1) b(2)]
            have "parse_object rt d1 n n (c1 # r1) [] = parse_object rt d1 n' n' (c1 # r1) []" .
            with s True Suc Cons e show ?thesis by simp
          qed
        qed
      qed
    next
      case o: False
      show ?thesis
      proof (cases "c = 91")
        case True
        show ?thesis
        proof (cases d)
          case 0
          with s o True show ?thesis by simp
        next
          case (Suc d1)
          show ?thesis
          proof (cases "skip_ws r0")
            case Nil
            with s o True Suc show ?thesis by simp
          next
            case (Cons c1 r1)
            have wl: "length (c1 # r1) \<le> length r0" using skip_ws_length [of r0] Cons by simp
            show ?thesis
            proof (cases "c1 = 93")
              case e: True
              with s o True Suc Cons show ?thesis by simp
            next
              case e: False
              from wl "2.prems" have b: "length (c1 # r1) \<le> n" "length (c1 # r1) \<le> n'"
                by simp_all
              from "2.IH"(2) [OF s o True Suc Cons e b(1) b(2) b(1) b(2)]
              have "parse_array rt d1 n n (c1 # r1) [] = parse_array rt d1 n' n' (c1 # r1) []" .
              with s o True Suc Cons e show ?thesis by simp
            qed
          qed
        qed
      next
        case False
        with s o show ?thesis by simp
      qed
    qed
  qed
next
  case (3 rt d n s acc)
  then have "s = []" by simp
  then show ?case by (cases k') simp_all
next
  case (4 rt d n k s acc)
  show ?case
  proof (cases k')
    case 0
    with "4.prems" have "s = []" by simp
    with 0 show ?thesis by simp
  next
    case (Suc k2)
    from "4.IH"(1) [OF "4.prems"(1,2)]
    have eq: "scan_once rt d n s = scan_once rt d n' s" .
    show ?thesis
    proof (cases "scan_once rt d n s")
      case (Inl e)
      moreover from Inl eq have "scan_once rt d n' s = Inl e" by simp
      ultimately show ?thesis using Suc by simp
    next
      case (Inr p)
      obtain v1 r1 where p: "p = (v1, r1)" by (cases p)
      with Inr have a: "scan_once rt d n s = Inr (v1, r1)" by simp
      with eq have a2: "scan_once rt d n' s = Inr (v1, r1)" by simp
      from a have l1: "length r1 < length s" by (rule scan_shorter(1))
      show ?thesis
      proof (cases "skip_ws r1")
        case Nil
        with a a2 Suc show ?thesis by simp
      next
        case (Cons c r2)
        have wl: "length (c # r2) \<le> length r1" using skip_ws_length [of r1] Cons by simp
        show ?thesis
        proof (cases "c = 93")
          case True
          with a a2 Suc Cons show ?thesis by simp
        next
          case e: False
          show ?thesis
          proof (cases "c = 44")
            case False
            with e a a2 Suc Cons show ?thesis by simp
          next
            case True
            have l: "length (skip_ws r2) + 2 \<le> length s"
              using skip_ws_length [of r2] wl l1 by simp
            with "4.prems" Suc have b: "length (skip_ws r2) \<le> n" "length (skip_ws r2) \<le> n'"
              "length (skip_ws r2) \<le> k" "length (skip_ws r2) \<le> k2"
              by simp_all
            from "4.IH"(2) [OF a refl Cons e True b]
            have "parse_array rt d n k (skip_ws r2) (v1 # acc) =
                  parse_array rt d n' k2 (skip_ws r2) (v1 # acc)" .
            with e True a a2 Suc Cons show ?thesis by simp
          qed
        qed
      qed
    qed
  qed
next
  case (5 rt d n s acc)
  then have "s = []" by simp
  then show ?case by (cases k') simp_all
next
  case (6 rt d n k s acc)
  show ?case
  proof (cases k')
    case 0
    with "6.prems" have "s = []" by simp
    with 0 show ?thesis by simp
  next
    case (Suc k2)
    show ?thesis
    proof (cases s)
      case Nil
      with Suc show ?thesis by simp
    next
      case (Cons q r0)
      show ?thesis
      proof (cases "q \<noteq> 34")
        case True
        with Cons Suc show ?thesis by simp
      next
        case q: False
        show ?thesis
        proof (cases "scanstring r0 []")
          case (Inl e)
          with Cons q Suc show ?thesis by (simp del: scanstring.simps)
        next
          case (Inr p)
          obtain key r1 where "p = (key, r1)" by (cases p)
          with Inr have ks: "scanstring r0 [] = Inr (key, r1)" by simp
          then have l1: "length r1 < length r0" by (rule scanstring_length)
          show ?thesis
          proof (cases "skip_ws r1")
            case Nil
            with Cons q ks Suc show ?thesis by (simp del: scanstring.simps)
          next
            case w: (Cons c r2)
            have wl: "length (c # r2) \<le> length r1" using skip_ws_length [of r1] w by simp
            show ?thesis
            proof (cases "c \<noteq> 58")
              case True
              with Cons q ks w Suc show ?thesis by (simp del: scanstring.simps)
            next
              case c: False
              have l2: "length (skip_ws r2) + 2 < length s"
                using skip_ws_length [of r2] wl l1 Cons by simp
              with "6.prems" have b: "length (skip_ws r2) \<le> n" "length (skip_ws r2) \<le> n'"
                by simp_all
              from "6.IH"(1) [OF Cons q ks refl w c b]
              have eq: "scan_once rt d n (skip_ws r2) = scan_once rt d n' (skip_ws r2)" .
              show ?thesis
              proof (cases "scan_once rt d n (skip_ws r2)")
                case (Inl e)
                moreover from Inl eq have "scan_once rt d n' (skip_ws r2) = Inl e" by simp
                ultimately show ?thesis using Cons q ks w c Suc
                  by (simp del: scanstring.simps)
              next
                case (Inr p2)
                obtain v1 r3 where "p2 = (v1, r3)" by (cases p2)
                with Inr have a: "scan_once rt d n (skip_ws r2) = Inr (v1, r3)" by simp
                with eq have a2: "scan_once rt d n' (skip_ws r2) = Inr (v1, r3)" by simp
                from a have l3: "length r3 < length (skip_ws r2)" by (rule scan_shorter(1))
                show ?thesis
                proof (cases "skip_ws r3")
                  case Nil
                  with a a2 Cons q ks w c Suc show ?thesis by (simp del: scanstring.simps)
                next
                  case w2: (Cons c2 r4)
                  have wl2: "length (c2 # r4) \<le> length r3"
                    using skip_ws_length [of r3] w2 by simp
                  show ?thesis
                  proof (cases "c2 = 125")
                    case True
                    with a a2 Cons q ks w c w2 Suc show ?thesis by (simp del: scanstring.simps)
                  next
                    case e: False
                    show ?thesis
                    proof (cases "c2 = 44")
                      case False
                      with e a a2 Cons q ks w c w2 Suc show ?thesis
                        by (simp del: scanstring.simps)
                    next
                      case True
                      have "length (skip_ws r4) + 2 \<le> length s"
                        using skip_ws_length [of r4] wl2 l3 l2 by simp
                      with "6.prems" Suc
                      have b2: "length (skip_ws r4) \<le> n" "length (skip_ws r4) \<le> n'"
                        "length (skip_ws r4) \<le> k" "length (skip_ws r4) \<le> k2"
                        by simp_all
                      from "6.IH"(2) [OF Cons q ks refl w c a refl w2 e True b2]
                      have "parse_object rt d n k (skip_ws r4) (dict_set acc key v1) =
                            parse_object rt d n' k2 (skip_ws r4) (dict_set acc key v1)" .
                      with e True a a2 Cons q ks w c w2 Suc show ?thesis
                        by (simp del: scanstring.simps)
                    qed
                  qed
                qed
              qed
            qed
          qed
        qed
      qed
    qed
  qed
qed

lemma json_loads_bound:
  "length s \<le> n \<Longrightarrow>
   scan_once rt d (length s) (skip_ws s) = scan_once rt d n (skip_ws s)"
  using skip_ws_length [of s] by (intro bound_irrelevant(1)) simp_all

end
